theory Spec2Isabelle
  imports Complex_Main
begin

section \<open>Data model (types.ts)\<close>

text \<open>
  JavaScript strings that the program only stores, compares and passes on (book ids,
  canonical fragment identifiers, colours) are \<open>string\<close>. A text selected by the user
  is kept as its UTF-16 code units, because \<open>String.prototype.trim\<close> is defined on
  them. Numbers that hold counts, percentages and timestamps are \<open>int\<close>; the fractional
  position reported by the rendering engine and the width of the container are the
  \<open>real\<close> numbers that the doubles denote.
\<close>

type_synonym utf16 = "nat list"

record Highlight =
  cfiRange :: string
  color :: string
  text_h :: "utf16 option"
  created :: int

datatype theme = light | sepia | night

datatype fontFamily = serif | sans

record ReaderSettings =
  theme :: theme
  fontSize :: int
  fontFamily :: fontFamily

definition DEFAULT_SETTINGS :: ReaderSettings where
  "DEFAULT_SETTINGS = \<lparr>theme = light, fontSize = 100, fontFamily = serif\<rparr>"

record Book =
  book_id :: string
  title :: string
  author :: string
  coverUrl :: "string option"
  data :: "nat list"
  addedAt :: int
  lastLocationCfi :: string
  progress :: int
  totalLocations :: "int option"
  highlights :: "Highlight list option"

section \<open>Persistence (services/db.ts)\<close>

text \<open>
  The object store \<open>books\<close> of IndexedDB is a map from the key to the record; its
  key path is the record's \<open>id\<close>. A rejected promise or a thrown value is an \<open>exn\<close>.
  The functions of db.ts contain no \<open>throw\<close> and no \<open>catch\<close>: the only failure they
  can report is one of the store itself. The store's write failure (quota, clone error)
  is the field \<open>put_rejects\<close>, so that a call that must not fail can be seen not to
  depend on it. As a function of the store, an exported function is the call run with
  no other write to the store between its \<open>db.get\<close> and its \<open>db.put\<close>. The two are
  separate steps of the call: they are told apart further down (\<open>db_op\<close>), and it is
  in that form that the Reader component uses the three functions.
\<close>

datatype exn = Thrown string

record idb =
  books :: "string \<rightharpoonup> Book"
  put_rejects :: "Book \<Rightarrow> bool"

definition db_get :: "string \<Rightarrow> idb \<Rightarrow> Book option" where
  "db_get k d = books d k"

definition db_put :: "Book \<Rightarrow> idb \<Rightarrow> exn + idb" where
  "db_put b d =
     (if put_rejects d b then Inl (Thrown ''put'')
      else Inr (d\<lparr>books := (books d)(book_id b \<mapsto> b)\<rparr>))"

definition db_delete :: "string \<Rightarrow> idb \<Rightarrow> idb" where
  "db_delete k d = d\<lparr>books := (books d)(k := None)\<rparr>"

definition saveBook :: "Book \<Rightarrow> idb \<Rightarrow> exn + idb" where
  "saveBook b d = db_put b d"

definition getBook :: "string \<Rightarrow> idb \<Rightarrow> Book option" where
  "getBook k d = db_get k d"

definition deleteBook :: "string \<Rightarrow> idb \<Rightarrow> idb" where
  "deleteBook k d = db_delete k d"

definition updateBookProgress :: "string \<Rightarrow> string \<Rightarrow> int \<Rightarrow> idb \<Rightarrow> exn + idb" where
  "updateBookProgress k cfi p d =
     (case db_get k d of
        None \<Rightarrow> Inr d
      | Some book \<Rightarrow> db_put (book\<lparr>lastLocationCfi := cfi, progress := p\<rparr>) d)"

definition addBookHighlight :: "string \<Rightarrow> Highlight \<Rightarrow> idb \<Rightarrow> exn + idb" where
  "addBookHighlight k h d =
     (case db_get k d of
        None \<Rightarrow> Inr d
      | Some book \<Rightarrow>
          (let hs = (case highlights book of None \<Rightarrow> [] | Some l \<Rightarrow> l)
           in db_put (book\<lparr>highlights := Some (hs @ [h])\<rparr>) d))"

definition removeBookHighlight :: "string \<Rightarrow> string \<Rightarrow> idb \<Rightarrow> exn + idb" where
  "removeBookHighlight k c d =
     (case db_get k d of
        None \<Rightarrow> Inr d
      | Some book \<Rightarrow>
          (case highlights book of
             None \<Rightarrow> Inr d
           | Some hs \<Rightarrow> db_put (book\<lparr>highlights := Some (filter (\<lambda>h. cfiRange h \<noteq> c) hs)\<rparr>) d))"

text \<open>
  The store after a call has ended: as the call left it, or unchanged when it rejected.
\<close>

definition settle :: "idb \<Rightarrow> exn + idb \<Rightarrow> idb" where
  "settle d r = (case r of Inl e \<Rightarrow> d | Inr d' \<Rightarrow> d')"

text \<open>
  A call in two steps. Each of the three functions awaits \<open>db.get\<close>, computes from the
  record it got the record to write (or returns), and awaits \<open>db.put\<close>. A call in
  flight is either waiting for its \<open>get\<close> or, holding the record it computed, for its
  \<open>put\<close>; the store may change between the two.
\<close>

datatype db_request =
    Req_updateBookProgress string string int
  | Req_addBookHighlight string Highlight
  | Req_removeBookHighlight string string

datatype db_op = Awaiting_get db_request | Awaiting_put Book

fun request_key :: "db_request \<Rightarrow> string" where
  "request_key (Req_updateBookProgress k cfi p) = k"
| "request_key (Req_addBookHighlight k h) = k"
| "request_key (Req_removeBookHighlight k c) = k"

fun next_record :: "db_request \<Rightarrow> Book \<Rightarrow> Book option" where
  "next_record (Req_updateBookProgress k cfi p) book =
     Some (book\<lparr>lastLocationCfi := cfi, progress := p\<rparr>)"
| "next_record (Req_addBookHighlight k h) book =
     Some (book\<lparr>highlights := Some ((case highlights book of None \<Rightarrow> [] | Some l \<Rightarrow> l) @ [h])\<rparr>)"
| "next_record (Req_removeBookHighlight k c) book =
     (case highlights book of
        None \<Rightarrow> None
      | Some hs \<Rightarrow> Some (book\<lparr>highlights := Some (filter (\<lambda>h. cfiRange h \<noteq> c) hs)\<rparr>))"

definition after_get :: "db_request \<Rightarrow> idb \<Rightarrow> db_op option" where
  "after_get r d =
     (case db_get (request_key r) d of
        None \<Rightarrow> None
      | Some book \<Rightarrow> map_option Awaiting_put (next_record r book))"

text \<open>The call run alone: the \<open>put\<close> meets the store that the \<open>get\<close> read.\<close>

definition run_alone :: "db_request \<Rightarrow> idb \<Rightarrow> exn + idb" where
  "run_alone r d =
     (case after_get r d of
        None \<Rightarrow> Inr d
      | Some (Awaiting_put b) \<Rightarrow> db_put b d
      | Some (Awaiting_get r') \<Rightarrow> Inr d)"

definition stored_highlights :: "string \<Rightarrow> idb \<Rightarrow> Highlight list option" where
  "stored_highlights k d = (case books d k of None \<Rightarrow> None | Some b \<Rightarrow> highlights b)"


section \<open>Font-size controls (Reader.tsx, the A- and A+ buttons)\<close>

definition font_smaller :: "ReaderSettings \<Rightarrow> ReaderSettings" where
  "font_smaller s = s\<lparr>fontSize := max 50 (fontSize s - 10)\<rparr>"

definition font_larger :: "ReaderSettings \<Rightarrow> ReaderSettings" where
  "font_larger s = s\<lparr>fontSize := min 200 (fontSize s + 10)\<rparr>"

datatype font_button = A_minus | A_plus

fun press :: "font_button \<Rightarrow> ReaderSettings \<Rightarrow> ReaderSettings" where
  "press A_minus s = font_smaller s"
| "press A_plus s = font_larger s"

fun presses :: "font_button list \<Rightarrow> ReaderSettings \<Rightarrow> ReaderSettings" where
  "presses [] s = s"
| "presses (b # bs) s = presses bs (press b s)"

section \<open>The rendering engine, as the component uses it\<close>

text \<open>
  The rendering engine is the library epub.js: an external collaborator (section 6 of the
  specification), of which only the calls appear in Reader.tsx. Neither the repository
  nor the specification, which gives the signatures \<open>add(kind, rangeId, style)\<close> and
  \<open>remove(rangeId, kind)\<close> only, says what the two calls do; the model keeps what they
  do in the library.
  \<^item> \<open>overlays\<close> is the registry of annotations, keyed by the range identifier and the
    kind; \<open>marks\<close> are the marks drawn on the page, oldest first, each under its key.
  \<^item> \<open>add\<close> registers the annotation under its key, in the place of one registered
    there, and draws one more mark: a second \<open>add\<close> for a key does not take the first
    mark away.
  \<^item> \<open>remove\<close> looks the key up in the registry: when an annotation is registered, its
    mark (the one drawn last under the key) is taken away and the key unregistered;
    otherwise nothing happens.
  \<^item> A call may throw (section 4.2: removing a stale overlay may report failure,
    re-applying an overlay whose identifier no longer resolves may fail); which
    identifiers make it throw is a field of the engine, arbitrary in every general
    theorem. A call that throws leaves registry and marks as they were.
  \<^item> The location index answers \<open>percentageFromCfi\<close> with a fraction, or with
    \<open>null\<close> (here \<open>None\<close>) while it is not built.
\<close>

type_synonym style = "(string \<times> string) list"

record engine =
  overlays :: "string \<times> string \<rightharpoonup> string \<times> style"
  marks :: "(string \<times> string) list"
  add_throws :: "string \<Rightarrow> bool"
  remove_throws :: "string \<Rightarrow> bool"
  percentageFromCfi :: "string \<Rightarrow> real option"

definition remove_last :: "'a \<Rightarrow> 'a list \<Rightarrow> 'a list" where
  "remove_last x xs = rev (remove1 x (rev xs))"

definition annotations_add :: "string \<Rightarrow> string \<Rightarrow> string \<Rightarrow> style \<Rightarrow> engine \<Rightarrow> exn + engine" where
  "annotations_add kind c cls st e =
     (if add_throws e c then Inl (Thrown ''annotations.add'')
      else Inr (e\<lparr>overlays := (overlays e)((c, kind) \<mapsto> (cls, st)),
                 marks := marks e @ [(c, kind)]\<rparr>))"

definition annotations_remove :: "string \<Rightarrow> string \<Rightarrow> engine \<Rightarrow> exn + engine" where
  "annotations_remove c kind e =
     (if remove_throws e c then Inl (Thrown ''annotations.remove'')
      else Inr (e\<lparr>overlays := (overlays e)((c, kind) := None),
                 marks := (if overlays e (c, kind) = None then marks e
                           else remove_last (c, kind) (marks e))\<rparr>))"

text \<open>The style object that \<open>applyTheme\<close> builds: the entries that depend on the settings.\<close>

record themeObj =
  body_font_family :: string
  body_color :: string
  body_font_size :: int
  img_filter :: string
  selection_background :: string

definition themeObj_of :: "ReaderSettings \<Rightarrow> themeObj" where
  "themeObj_of s =
     \<lparr>body_font_family =
        (if fontFamily s = serif then ''Merriweather, serif !important''
         else ''Inter, sans-serif !important''),
      body_color =
        (if theme s = night then ''#c0c0c0'' else if theme s = sepia then ''#5b4636'' else ''#2b2b2b''),
      body_font_size = fontSize s,
      img_filter = (if theme s = night then ''brightness(0.8) contrast(1.1)'' else ''none''),
      selection_background =
        (if theme s = night then ''rgba(150, 150, 150, 0.4)''
         else if theme s = sepia then ''rgba(91, 70, 54, 0.3)'' else ''rgba(255, 232, 66, 0.3)'')\<rparr>"

definition hl_style :: style where
  "hl_style = [(''fill'', ''yellow''), (''fill-opacity'', ''0.3''), (''mix-blend-mode'', ''multiply'')]"

section \<open>The Reader component (components/Reader.tsx)\<close>

text \<open>
  One record holds what a mounted Reader can read and write: its props, its React state
  and refs, the engine instance, the store, and the timers it has armed. Every call the
  component makes on a collaborator (the engine, the DOM selection, a React state setter,
  a function of db.ts, \<open>setTimeout\<close>) is appended to \<open>trace\<close> in program order.
  \<open>inflight\<close> are the calls on db.ts that have not ended. Time is a counter of
  milliseconds; \<open>Date.now()\<close> reads it.
\<close>

record popup =
  popup_cfiRange :: string
  popup_x :: real
  popup_y :: real

datatype timer = ResetJustCreated | Reconcile "Highlight list"

datatype call =
    RenderTo
  | Display "string option"
  | NavigationThen
  | On string
  | HooksContentRegister
  | AddEventListener string
  | ThemesRegister string themeObj
  | ThemesSelect string
  | LocationsGenerate nat
  | AnnotationsAdd string string string style
  | AnnotationsRemove string string
  | RemoveAllRanges
  | SetIsReady bool
  | SetCurrentCfi string
  | SetProgress int
  | SetHighlights "Highlight list"
  | SetHighlightPopup "popup option"
  | SetTimeout timer nat
  | UpdateBookProgress string string int
  | AddBookHighlight string Highlight
  | RemoveBookHighlight string string

record session =
  book :: Book
  settings :: ReaderSettings
  containerRef :: "real option"
  epub :: engine
  db :: idb
  inflight :: "db_op list"
  bookRef :: bool
  renditionRef :: bool
  display_then :: "ReaderSettings option"
  isReady :: bool
  currentCfi :: string
  progress_st :: int
  isHighlightModeRef :: bool
  highlights_st :: "Highlight list"
  highlightPopup :: "popup option"
  justCreatedHighlightRef :: bool
  clock :: nat
  timers :: "(nat \<times> timer) list"
  trace :: "call list"

definition emit :: "call \<Rightarrow> session \<Rightarrow> session" where
  "emit c s = s\<lparr>trace := trace s @ [c]\<rparr>"

definition setIsReady :: "bool \<Rightarrow> session \<Rightarrow> session" where
  "setIsReady b s = emit (SetIsReady b) (s\<lparr>isReady := b\<rparr>)"

definition setCurrentCfi :: "string \<Rightarrow> session \<Rightarrow> session" where
  "setCurrentCfi c s = emit (SetCurrentCfi c) (s\<lparr>currentCfi := c\<rparr>)"

definition setProgress :: "int \<Rightarrow> session \<Rightarrow> session" where
  "setProgress p s = emit (SetProgress p) (s\<lparr>progress_st := p\<rparr>)"

definition setHighlights :: "Highlight list \<Rightarrow> session \<Rightarrow> session" where
  "setHighlights hs s = emit (SetHighlights hs) (s\<lparr>highlights_st := hs\<rparr>)"

definition setHighlightPopup :: "popup option \<Rightarrow> session \<Rightarrow> session" where
  "setHighlightPopup p s = emit (SetHighlightPopup p) (s\<lparr>highlightPopup := p\<rparr>)"

definition setTimeout :: "timer \<Rightarrow> nat \<Rightarrow> session \<Rightarrow> session" where
  "setTimeout tm delay s = emit (SetTimeout tm delay) (s\<lparr>timers := timers s @ [(clock s + delay, tm)]\<rparr>)"

text \<open>
  The calls on db.ts. Reader.tsx neither awaits the promise nor attaches a handler: the
  handler goes on at once, and the call is in flight. Its \<open>get\<close> and its \<open>put\<close> run
  later, each as a step of its own (\<open>db_step\<close>, on the call at a position of
  \<open>inflight\<close>), in any order with the steps of the other calls in flight and with the
  events of the component. A rejected \<open>put\<close> ends the call and leaves the store.
\<close>

definition call_updateBookProgress :: "string \<Rightarrow> string \<Rightarrow> int \<Rightarrow> session \<Rightarrow> session" where
  "call_updateBookProgress k cfi p s =
     emit (UpdateBookProgress k cfi p)
       (s\<lparr>inflight := inflight s @ [Awaiting_get (Req_updateBookProgress k cfi p)]\<rparr>)"

definition call_addBookHighlight :: "string \<Rightarrow> Highlight \<Rightarrow> session \<Rightarrow> session" where
  "call_addBookHighlight k h s =
     emit (AddBookHighlight k h)
       (s\<lparr>inflight := inflight s @ [Awaiting_get (Req_addBookHighlight k h)]\<rparr>)"


definition without :: "nat \<Rightarrow> 'a list \<Rightarrow> 'a list" where
  "without i xs = take i xs @ drop (Suc i) xs"

definition db_step :: "nat \<Rightarrow> session \<Rightarrow> session" where
  "db_step i s =
     (if length (inflight s) \<le> i then s
      else
        (case inflight s ! i of
           Awaiting_get r \<Rightarrow>
             (case after_get r (db s) of
                None \<Rightarrow> s\<lparr>inflight := without i (inflight s)\<rparr>
              | Some op \<Rightarrow> s\<lparr>inflight := (inflight s)[i := op]\<rparr>)
         | Awaiting_put b \<Rightarrow>
             s\<lparr>db := settle (db s) (db_put b (db s)), inflight := without i (inflight s)\<rparr>))"

text \<open>The call at position \<open>i\<close> runs to its end with no step of another call in between.\<close>

definition db_complete :: "nat \<Rightarrow> session \<Rightarrow> session" where
  "db_complete i s =
     (let s1 = db_step i s
      in if length (inflight s1) = length (inflight s) then db_step i s1 else s1)"

text \<open>
  The two calls on the overlay API, with the arguments Reader.tsx always passes. The
  result says whether the call threw; the call is in the trace either way.
\<close>

definition call_annotations_add :: "string \<Rightarrow> session \<Rightarrow> exn option \<times> session" where
  "call_annotations_add c s =
     (let s' = emit (AnnotationsAdd ''highlight'' c ''hl'' hl_style) s
      in case annotations_add ''highlight'' c ''hl'' hl_style (epub s) of
           Inl e \<Rightarrow> (Some e, s')
         | Inr e' \<Rightarrow> (None, s'\<lparr>epub := e'\<rparr>))"

definition call_annotations_remove :: "string \<Rightarrow> session \<Rightarrow> exn option \<times> session" where
  "call_annotations_remove c s =
     (let s' = emit (AnnotationsRemove c ''highlight'') s
      in case annotations_remove c ''highlight'' (epub s) of
           Inl e \<Rightarrow> (Some e, s')
         | Inr e' \<Rightarrow> (None, s'\<lparr>epub := e'\<rparr>))"

text \<open>\<open>renditionRef.current?.annotations...\<close>: nothing happens while the ref is null.\<close>

definition ref_annotations_add :: "string \<Rightarrow> session \<Rightarrow> exn option \<times> session" where
  "ref_annotations_add c s = (if renditionRef s then call_annotations_add c s else (None, s))"

definition ref_annotations_remove :: "string \<Rightarrow> session \<Rightarrow> exn option \<times> session" where
  "ref_annotations_remove c s = (if renditionRef s then call_annotations_remove c s else (None, s))"

subsection \<open>applyTheme\<close>

definition applyTheme :: "ReaderSettings \<Rightarrow> session \<Rightarrow> session" where
  "applyTheme st s = emit (ThemesSelect ''custom'') (emit (ThemesRegister ''custom'' (themeObj_of st)) s)"

subsection \<open>The initialization effect and the callback of the first display\<close>

text \<open>
  The effect takes the engine instance that \<open>ePub(book.data)\<close> returns. The callback
  given to \<open>rendition.display(startLocation).then\<close> is stored with the \<open>settings\<close> of
  the render that created it (a closure); it runs when the engine settles the display.
  \<open>book.lastLocationCfi || undefined\<close> turns the empty string into no location.
\<close>

definition startLocation :: "Book \<Rightarrow> string option" where
  "startLocation b = (if lastLocationCfi b = [] then None else Some (lastLocationCfi b))"

definition init_effect :: "engine \<Rightarrow> session \<Rightarrow> session" where
  "init_effect e0 s =
     (case containerRef s of
        None \<Rightarrow> s
      | Some w \<Rightarrow>
          (let s1 = s\<lparr>epub := e0, bookRef := True\<rparr>;
               s2 = (emit RenderTo s1)\<lparr>renditionRef := True\<rparr>;
               s3 = (emit (Display (startLocation (book s2))) s2)\<lparr>display_then := Some (settings s2)\<rparr>;
               s4 = emit NavigationThen s3;
               s5 = emit (On ''relocated'') s4;
               s6 = emit HooksContentRegister s5;
               s7 = emit (On ''click'') s6;
               s8 = emit (On ''markClicked'') s7
           in emit (AddEventListener ''keydown'') s8))"

definition display_settled :: "session \<Rightarrow> session" where
  "display_settled s =
     (case display_then s of
        None \<Rightarrow> s
      | Some st \<Rightarrow>
          (let s1 = setIsReady True (s\<lparr>display_then := None\<rparr>);
               s2 = applyTheme st s1
           in emit (LocationsGenerate 1000) s2))"

subsection \<open>updateLocationState (the relocated event)\<close>

text \<open>
  A JavaScript number is taken as the real number the double denotes. The product of two
  doubles is the exact product rounded to the nearest double, ties to the even
  significand, so \<open>percentage * 100\<close> is not the product of the reals: for the double
  nearest to 0.6 it is 60, the exact product being below 60. \<open>double_round\<close> rounds to
  53 significant bits; the range of the exponent is not limited (no overflow, no
  subnormal numbers: the products here lie between 0 and 100, and below the normal range
  their floor is 0 either way). \<open>Math.floor\<close> is exact. \<open>null * 100\<close> is \<open>0\<close>:
  \<open>null\<close> converts to \<open>0\<close>.
\<close>

definition round_half_even :: "real \<Rightarrow> int" where
  "round_half_even x =
     (let n = \<lfloor>x\<rfloor>; r = x - of_int n
      in if r < 1 / 2 then n else if 1 / 2 < r then n + 1 else if even n then n else n + 1)"

definition binade :: "real \<Rightarrow> int" where
  "binade x = \<lfloor>log 2 \<bar>x\<bar>\<rfloor>"

definition double_round :: "real \<Rightarrow> real" where
  "double_round x =
     (if x = 0 then 0
      else of_int (round_half_even (x / 2 powr of_int (binade x - 52))) * 2 powr of_int (binade x - 52))"

definition js_times :: "real \<Rightarrow> real \<Rightarrow> real" where
  "js_times x y = double_round (x * y)"

definition to_number :: "real option \<Rightarrow> real" where
  "to_number v = (case v of None \<Rightarrow> 0 | Some r \<Rightarrow> r)"

definition updateLocationState :: "string \<Rightarrow> session \<Rightarrow> session" where
  "updateLocationState startCfi s =
     (if \<not> bookRef s then s
      else
        (let s1 = setCurrentCfi startCfi s;
             percentage = percentageFromCfi (epub s1) startCfi;
             percentageNum = \<lfloor>js_times (to_number percentage) 100\<rfloor>;
             s2 = setProgress percentageNum s1
         in call_updateBookProgress (book_id (book s2)) startCfi percentageNum s2))"

subsection \<open>The mouseup listener of the content hook\<close>

text \<open>
  The white space and line terminators of ECMAScript, which \<open>trim\<close> strips from both
  ends. All are single UTF-16 code units.
\<close>

definition is_js_space :: "nat \<Rightarrow> bool" where
  "is_js_space c \<longleftrightarrow>
     c \<in> {0x9, 0xA, 0xB, 0xC, 0xD, 0x20, 0xA0, 0x1680, 0x2028, 0x2029, 0x202F, 0x205F, 0x3000, 0xFEFF}
     \<or> (0x2000 \<le> c \<and> c \<le> 0x200A)"

definition trim :: "utf16 \<Rightarrow> utf16" where
  "trim s = rev (dropWhile is_js_space (rev (dropWhile is_js_space s)))"

text \<open>
  What the listener reads from \<open>doc.getSelection()\<close> (\<open>None\<close> is a null selection):
  \<open>range_cfi\<close> is the string the engine's CFI constructor gives for the first range.
\<close>

record selection =
  isCollapsed :: bool
  rangeCount :: nat
  toString :: utf16
  range_cfi :: string

definition newHighlight :: "string \<Rightarrow> utf16 \<Rightarrow> nat \<Rightarrow> Highlight" where
  "newHighlight c txt now = \<lparr>cfiRange = c, color = ''#ffff00'', text_h = Some txt, created = int now\<rparr>"

definition create_highlight :: "string \<Rightarrow> utf16 \<Rightarrow> session \<Rightarrow> session" where
  "create_highlight c txt s =
     (let s1 = setTimeout ResetJustCreated 300 (s\<lparr>justCreatedHighlightRef := True\<rparr>)
      in case call_annotations_add c s1 of
           (Some e, s2) \<Rightarrow> s2
         | (None, s2) \<Rightarrow>
             (let s3 = emit RemoveAllRanges s2;
                  h = newHighlight c txt (clock s3);
                  s4 = setHighlights (highlights_st s3 @ [h]) s3
              in call_addBookHighlight (book_id (book s4)) h s4))"

definition mouseup :: "selection option \<Rightarrow> session \<Rightarrow> session" where
  "mouseup sel s =
     (if \<not> isHighlightModeRef s then s
      else
        (case sel of
           None \<Rightarrow> s
         | Some sl \<Rightarrow>
             if isCollapsed sl \<or> rangeCount sl = 0 then s
             else
               (let txt = trim (toString sl)
                in if txt = [] then s
                   else
                     (let c = range_cfi sl
                      in if c = [] then s else create_highlight c txt s))))"

subsection \<open>The markClicked handler and deleteHighlight\<close>

definition markClicked :: "string \<Rightarrow> session \<Rightarrow> session" where
  "markClicked c s =
     (if justCreatedHighlightRef s then s
      else
        (case containerRef s of
           None \<Rightarrow> s
         | Some w \<Rightarrow> setHighlightPopup (Some \<lparr>popup_cfiRange = c, popup_x = w / 2, popup_y = 60\<rparr>) s))"


subsection \<open>The effect on settings and highlights, and its timeout\<close>

text \<open>
  The body of the 100 ms timeout: the first loop catches what \<open>remove\<close> throws, the
  second loop has no handler, so a throwing \<open>add\<close> ends the callback.
\<close>

fun remove_all :: "Highlight list \<Rightarrow> session \<Rightarrow> session" where
  "remove_all [] s = s"
| "remove_all (h # hs) s = remove_all hs (snd (ref_annotations_remove (cfiRange h) s))"

fun add_all :: "Highlight list \<Rightarrow> session \<Rightarrow> exn option \<times> session" where
  "add_all [] s = (None, s)"
| "add_all (h # hs) s =
     (case ref_annotations_add (cfiRange h) s of
        (Some e, s') \<Rightarrow> (Some e, s')
      | (None, s') \<Rightarrow> add_all hs s')"

definition reconcile :: "Highlight list \<Rightarrow> session \<Rightarrow> session" where
  "reconcile hs s = (if \<not> renditionRef s then s else snd (add_all hs (remove_all hs s)))"

text \<open>
  The effect runs after a render in which \<open>settings\<close>, \<open>isReady\<close> or \<open>highlights\<close>
  changed. Its cleanup clears the timeout of the previous run; the new timeout captures
  the highlights of this render.
\<close>

fun is_reconcile :: "timer \<Rightarrow> bool" where
  "is_reconcile (Reconcile hs) = True"
| "is_reconcile ResetJustCreated = False"

definition clearTimeout_reconcile :: "session \<Rightarrow> session" where
  "clearTimeout_reconcile s = s\<lparr>timers := filter (\<lambda>p. \<not> is_reconcile (snd p)) (timers s)\<rparr>"

definition settings_effect :: "session \<Rightarrow> session" where
  "settings_effect s =
     (let s0 = clearTimeout_reconcile s
      in if renditionRef s0 \<and> isReady s0
         then setTimeout (Reconcile (highlights_st s0)) 100 (applyTheme (settings s0) s0)
         else s0)"

text \<open>
  \<open>onUpdateSettings\<close> (App.tsx: \<open>handleUpdateSettings\<close>) replaces the settings object,
  so the effect above runs. The two font buttons and the three theme buttons call it.
\<close>

definition onUpdateSettings :: "ReaderSettings \<Rightarrow> session \<Rightarrow> session" where
  "onUpdateSettings st s = settings_effect (s\<lparr>settings := st\<rparr>)"

definition click_A_minus :: "session \<Rightarrow> session" where
  "click_A_minus s = onUpdateSettings (font_smaller (settings s)) s"

definition click_A_plus :: "session \<Rightarrow> session" where
  "click_A_plus s = onUpdateSettings (font_larger (settings s)) s"

definition click_theme :: "theme \<Rightarrow> session \<Rightarrow> session" where
  "click_theme th s = onUpdateSettings ((settings s)\<lparr>theme := th\<rparr>) s"

fun click :: "font_button \<Rightarrow> session \<Rightarrow> session" where
  "click A_minus s = click_A_minus s"
| "click A_plus s = click_A_plus s"

fun clicks :: "font_button list \<Rightarrow> session \<Rightarrow> session" where
  "clicks [] s = s"
| "clicks (b # bs) s = clicks bs (click b s)"

subsection \<open>Timers\<close>

text \<open>
  When the clock reaches \<open>t\<close>, the timers due by then fire in the order of their due
  times (those due together, in the order they were armed).
\<close>

fun fire :: "timer \<Rightarrow> session \<Rightarrow> session" where
  "fire ResetJustCreated s = s\<lparr>justCreatedHighlightRef := False\<rparr>"
| "fire (Reconcile hs) s = reconcile hs s"

fun fire_all :: "(nat \<times> timer) list \<Rightarrow> session \<Rightarrow> session" where
  "fire_all [] s = s"
| "fire_all (p # ps) s = fire_all ps (fire (snd p) s)"

definition advance :: "nat \<Rightarrow> session \<Rightarrow> session" where
  "advance t s =
     (let due = filter (\<lambda>p. fst p \<le> t) (timers s);
          later = filter (\<lambda>p. \<not> fst p \<le> t) (timers s)
      in fire_all (sort_key fst due) (s\<lparr>clock := max t (clock s), timers := later\<rparr>))"

subsection \<open>The first render\<close>

text \<open>
  The initial values of the React state and refs of a Reader mounted for book \<open>b\<close>:
  \<open>useState(book.highlights || [])\<close>, \<open>useState(false)\<close> for \<open>isReady\<close>, and so on.
  \<open>w\<close> is the width of the mounted container, \<open>e\<close> the engine instance that
  \<open>ePub(book.data)\<close> is going to return, \<open>d\<close> the store, \<open>now\<close> the time of mounting.
\<close>

definition first_render :: "Book \<Rightarrow> ReaderSettings \<Rightarrow> real option \<Rightarrow> engine \<Rightarrow> idb \<Rightarrow> nat \<Rightarrow> session" where
  "first_render b st w e d now =
     \<lparr>book = b, settings = st, containerRef = w, epub = e, db = d, inflight = [],
      bookRef = False, renditionRef = False, display_then = None, isReady = False,
      currentCfi = [], progress_st = 0, isHighlightModeRef = False,
      highlights_st = (case highlights b of None \<Rightarrow> [] | Some hs \<Rightarrow> hs),
      highlightPopup = None, justCreatedHighlightRef = False,
      clock = now, timers = [], trace = []\<rparr>"

definition toggleHighlightMode :: "session \<Rightarrow> session" where
  "toggleHighlightMode s = s\<lparr>isHighlightModeRef := \<not> isHighlightModeRef s\<rparr>"

section \<open>Notions used in the statements and proofs\<close>

text \<open>
  \<open>only_overlays s s'\<close>: the step from \<open>s\<close> to \<open>s'\<close> changed nothing but the registry and
  the marks of the engine and the trace. \<open>overlay_key\<close> is the key under which the
  overlay of a highlight is added and removed. \<open>tidy\<close>: the marks drawn are the
  annotations registered, one mark each, so no mark is doubled and none is left without
  its annotation. \<open>unmark\<close> is what a run of successful \<open>remove\<close> calls for the keys
  \<open>ks\<close> leaves of the marks \<open>ms\<close>, from the registry \<open>reg\<close>.
\<close>

definition only_overlays :: "session \<Rightarrow> session \<Rightarrow> bool" where
  "only_overlays s s' \<longleftrightarrow>
     s' = s\<lparr>epub := (epub s)\<lparr>overlays := overlays (epub s'), marks := marks (epub s')\<rparr>,
            trace := trace s'\<rparr>"

definition tidy :: "engine \<Rightarrow> bool" where
  "tidy e \<longleftrightarrow> distinct (marks e) \<and> set (marks e) = dom (overlays e)"

fun unmark :: "('k \<rightharpoonup> 'v) \<Rightarrow> 'k list \<Rightarrow> 'k list \<Rightarrow> 'k list" where
  "unmark reg [] ms = ms"
| "unmark reg (k # ks) ms =
     unmark (reg(k := None)) ks (if reg k = None then ms else remove_last k ms)"

definition overlay_key :: "Highlight \<Rightarrow> string \<times> string" where
  "overlay_key h = (cfiRange h, ''highlight'')"

section \<open>Concrete inputs\<close>

definition hA :: Highlight where
  "hA = \<lparr>cfiRange = ''epubcfi(/6/4!/4/2,/1:0,/1:5)'', color = ''#ffff00'',
          text_h = Some [72, 101, 108, 108, 111], created = 1000\<rparr>"

definition hA2 :: Highlight where
  "hA2 = \<lparr>cfiRange = ''epubcfi(/6/4!/4/2,/1:0,/1:5)'', color = ''#ffff00'',
           text_h = Some [72, 101, 108, 108, 111], created = 2000\<rparr>"

definition hB :: Highlight where
  "hB = \<lparr>cfiRange = ''epubcfi(/6/6!/4/2,/1:3,/1:9)'', color = ''#ffff00'',
          text_h = Some [119, 111, 114, 108, 100], created = 3000\<rparr>"

definition book1 :: Book where
  "book1 = \<lparr>book_id = ''b1'', title = ''Walden'', author = ''Thoreau'', coverUrl = None,
             data = [80, 75, 3, 4], addedAt = 1, lastLocationCfi = [], progress = 0,
             totalLocations = None, highlights = Some [hA, hB]\<rparr>"



definition db1 :: idb where
  "db1 = \<lparr>books = [''b1'' \<mapsto> book1], put_rejects = (\<lambda>b. False)\<rparr>"


definition db_full :: idb where
  "db_full = \<lparr>books = [''b1'' \<mapsto> book1], put_rejects = (\<lambda>b. True)\<rparr>"

text \<open>
  An engine with the index built, whose overlay removal always reports failure; and the
  engine in a later condition: it shows the overlays of \<open>hA\<close> and \<open>hB\<close>, removes
  overlays without failure, and can no longer resolve the range of \<open>hA\<close>.
\<close>

definition engine1 :: engine where
  "engine1 = \<lparr>overlays = Map.empty, marks = [], add_throws = (\<lambda>c. False), remove_throws = (\<lambda>c. True),
               percentageFromCfi = (\<lambda>c. if c = ''epubcfi(/6/6!/4/2/1:0)'' then Some (3 / 8) else Some 1)\<rparr>"

definition engine_stale :: engine where
  "engine_stale =
     engine1\<lparr>overlays := [overlay_key hA \<mapsto> (''hl'', hl_style), overlay_key hB \<mapsto> (''hl'', hl_style)],
             marks := [overlay_key hA, overlay_key hB],
             add_throws := (\<lambda>c. c = cfiRange hA), remove_throws := (\<lambda>c. False)\<rparr>"

definition mounted1 :: session where
  "mounted1 = init_effect engine1 (first_render book1 DEFAULT_SETTINGS (Some 800) engine1 db1 5000)"

definition ready1 :: session where
  "ready1 = display_settled mounted1"

definition ready_stale :: session where
  "ready_stale = ready1\<lparr>epub := engine_stale\<rparr>"

text \<open>
  The session \<open>ready1\<close> with an engine on which no call throws; and with the index
  answering, for every identifier, the double nearest to 0.6.
\<close>

definition ready_sound :: session where
  "ready_sound = ready1\<lparr>epub := engine1\<lparr>remove_throws := (\<lambda>c. False)\<rparr>\<rparr>"

definition ready_06 :: session where
  "ready_06 = ready1\<lparr>epub := engine1\<lparr>percentageFromCfi := (\<lambda>c. Some (5404319552844595 / 2 ^ 53))\<rparr>\<rparr>"

definition sel_word :: selection where
  "sel_word = \<lparr>isCollapsed = False, rangeCount = 1, toString = [32, 72, 105, 10],
                range_cfi = ''epubcfi(/6/8!/4/2,/1:1,/1:3)''\<rparr>"

definition sel_blank :: selection where
  "sel_blank = \<lparr>isCollapsed = False, rangeCount = 1, toString = [32, 9, 160, 10],
                 range_cfi = ''epubcfi(/6/8!/4/2,/1:0,/1:4)''\<rparr>"

text \<open>
  The selection \<open>sel_word\<close> for which the engine gives no identifier; the one whose range
  is that of \<open>hA\<close>; and a further selection.
\<close>

definition sel_noid :: selection where
  "sel_noid = sel_word\<lparr>range_cfi := []\<rparr>"

definition sel_hA :: selection where
  "sel_hA = sel_word\<lparr>range_cfi := cfiRange hA\<rparr>"

definition sel_next :: selection where
  "sel_next = \<lparr>isCollapsed = False, rangeCount = 1, toString = [110, 101, 120, 116],
                range_cfi = ''epubcfi(/6/8!/4/4,/1:0,/1:4)''\<rparr>"



definition created_once :: session where
  "created_once = mouseup (Some sel_word) (toggleHighlightMode ready1)"

definition created_twice :: session where
  "created_twice = mouseup (Some sel_next) (advance 5200 created_once)"

section \<open>Persistence: removal, the missing record, and a call run alone\<close>




text \<open>The two-step form of a call, run alone, is the function of db.ts.\<close>

lemma run_alone_eq:
  "run_alone (Req_updateBookProgress k cfi p) d = updateBookProgress k cfi p d"
  "run_alone (Req_addBookHighlight k h) d = addBookHighlight k h d"
  "run_alone (Req_removeBookHighlight k c) d = removeBookHighlight k c d"
  by (simp_all add: run_alone_def after_get_def updateBookProgress_def addBookHighlight_def
      removeBookHighlight_def Let_def split: option.splits)

lemma db_complete_last:
  assumes "inflight s = xs @ [Awaiting_get r]"
  shows "db (db_complete (length xs) s) = settle (db s) (run_alone r (db s))"
    and "inflight (db_complete (length xs) s) = xs"
proof -
  show "db (db_complete (length xs) s) = settle (db s) (run_alone r (db s))"
  proof (cases "after_get r (db s)")
    case None
    then show ?thesis
      using assms by (simp add: db_complete_def db_step_def run_alone_def without_def Let_def settle_def)
  next
    case (Some op)
    then obtain b where op: "op = Awaiting_put b"
      by (auto simp: after_get_def split: option.splits)
    show ?thesis
      using assms Some op
      by (simp add: db_complete_def db_step_def run_alone_def without_def Let_def)
  qed
  show "inflight (db_complete (length xs) s) = xs"
  proof (cases "after_get r (db s)")
    case None
    then show ?thesis
      using assms by (simp add: db_complete_def db_step_def without_def Let_def)
  next
    case (Some op)
    then obtain b where op: "op = Awaiting_put b"
      by (auto simp: after_get_def split: option.splits)
    show ?thesis
      using assms Some op
      by (simp add: db_complete_def db_step_def without_def Let_def)
  qed
qed

section \<open>The overlay calls change the registry, the marks and the trace only\<close>

lemmas setter_defs = emit_def setIsReady_def setCurrentCfi_def setProgress_def setHighlights_def
  setHighlightPopup_def setTimeout_def

lemmas overlay_call_defs = call_annotations_add_def call_annotations_remove_def
  ref_annotations_add_def ref_annotations_remove_def annotations_add_def annotations_remove_def

lemma only_overlays_refl: "only_overlays s s"
  by (simp add: only_overlays_def)

lemma only_overlays_trans:
  assumes "only_overlays s s'" and "only_overlays s' s''"
  shows "only_overlays s s''"
proof -
  from assms(1) have 1: "s' = s\<lparr>epub := (epub s)\<lparr>overlays := overlays (epub s'), marks := marks (epub s')\<rparr>,
                              trace := trace s'\<rparr>"
    by (simp add: only_overlays_def)
  from assms(2) have 2: "s'' = s'\<lparr>epub := (epub s')\<lparr>overlays := overlays (epub s''), marks := marks (epub s'')\<rparr>,
                                trace := trace s''\<rparr>"
    by (simp add: only_overlays_def)
  have "s'' = (s\<lparr>epub := (epub s)\<lparr>overlays := overlays (epub s'), marks := marks (epub s')\<rparr>, trace := trace s'\<rparr>)
               \<lparr>epub := (epub s')\<lparr>overlays := overlays (epub s''), marks := marks (epub s'')\<rparr>, trace := trace s''\<rparr>"
    by (subst 2, subst 1) simp
  also have "epub s' = (epub s)\<lparr>overlays := overlays (epub s'), marks := marks (epub s')\<rparr>"
    using arg_cong [OF 1, of epub] by simp
  finally show ?thesis by (simp add: only_overlays_def)
qed

lemma only_overlays_fields:
  assumes "only_overlays s s'"
  shows "book s' = book s" and "db s' = db s" and "settings s' = settings s"
    and "highlights_st s' = highlights_st s" and "highlightPopup s' = highlightPopup s"
    and "renditionRef s' = renditionRef s" and "isReady s' = isReady s"
    and "justCreatedHighlightRef s' = justCreatedHighlightRef s"
    and "timers s' = timers s" and "clock s' = clock s"
    and "add_throws (epub s') = add_throws (epub s)"
    and "remove_throws (epub s') = remove_throws (epub s)"
    and "inflight s' = inflight s"
proof -
  from assms have 1: "s' = s\<lparr>epub := (epub s)\<lparr>overlays := overlays (epub s'), marks := marks (epub s')\<rparr>,
                            trace := trace s'\<rparr>"
    by (simp add: only_overlays_def)
  show "book s' = book s" using arg_cong [OF 1, of book] by simp
  show "db s' = db s" using arg_cong [OF 1, of db] by simp
  show "settings s' = settings s" using arg_cong [OF 1, of settings] by simp
  show "highlights_st s' = highlights_st s" using arg_cong [OF 1, of highlights_st] by simp
  show "highlightPopup s' = highlightPopup s" using arg_cong [OF 1, of highlightPopup] by simp
  show "renditionRef s' = renditionRef s" using arg_cong [OF 1, of renditionRef] by simp
  show "isReady s' = isReady s" using arg_cong [OF 1, of isReady] by simp
  show "justCreatedHighlightRef s' = justCreatedHighlightRef s"
    using arg_cong [OF 1, of justCreatedHighlightRef] by simp
  show "timers s' = timers s" using arg_cong [OF 1, of timers] by simp
  show "clock s' = clock s" using arg_cong [OF 1, of clock] by simp
  have e: "epub s' = (epub s)\<lparr>overlays := overlays (epub s'), marks := marks (epub s')\<rparr>"
    using arg_cong [OF 1, of epub] by simp
  show "add_throws (epub s') = add_throws (epub s)" using arg_cong [OF e, of add_throws] by simp
  show "remove_throws (epub s') = remove_throws (epub s)"
    using arg_cong [OF e, of remove_throws] by simp
  show "inflight s' = inflight s" using arg_cong [OF 1, of inflight] by simp
qed

lemma ref_remove_only_overlays: "only_overlays s (snd (ref_annotations_remove c s))"
  by (simp add: only_overlays_def overlay_call_defs emit_def Let_def)

lemma ref_add_only_overlays: "only_overlays s (snd (ref_annotations_add c s))"
  by (simp add: only_overlays_def overlay_call_defs emit_def Let_def)

lemma call_add_only_overlays: "only_overlays s (snd (call_annotations_add c s))"
  by (simp add: only_overlays_def overlay_call_defs emit_def Let_def)

lemma remove_all_only_overlays: "only_overlays s (remove_all hs s)"
proof (induction hs arbitrary: s)
  case Nil
  show ?case by (simp add: only_overlays_refl)
next
  case (Cons h hs)
  show ?case
    using only_overlays_trans [OF ref_remove_only_overlays Cons.IH] by simp
qed

lemma add_all_only_overlays: "only_overlays s (snd (add_all hs s))"
proof (induction hs arbitrary: s)
  case Nil
  show ?case by (simp add: only_overlays_refl)
next
  case (Cons h hs)
  obtain r s' where r: "ref_annotations_add (cfiRange h) s = (r, s')" by (cases "ref_annotations_add (cfiRange h) s")
  then have 1: "only_overlays s s'" using ref_add_only_overlays [of s "cfiRange h"] by simp
  show ?case
  proof (cases r)
    case None
    then show ?thesis using r only_overlays_trans [OF 1 Cons.IH] by simp
  next
    case (Some e)
    then show ?thesis using r 1 by simp
  qed
qed

lemma reconcile_only_overlays: "only_overlays s (reconcile hs s)"
  using only_overlays_trans [OF remove_all_only_overlays add_all_only_overlays]
  by (simp add: reconcile_def only_overlays_refl)


section \<open>The timeout body: the calls it makes, the registry and the marks it leaves\<close>

lemma remove_all_trace:
  "renditionRef s \<Longrightarrow>
     trace (remove_all hs s) = trace s @ map (\<lambda>h. AnnotationsRemove (cfiRange h) ''highlight'') hs"
proof (induction hs arbitrary: s)
  case Nil
  show ?case by simp
next
  case (Cons h hs)
  let ?s1 = "snd (ref_annotations_remove (cfiRange h) s)"
  have r: "renditionRef ?s1"
    using only_overlays_fields(6) [OF ref_remove_only_overlays] Cons.prems by simp
  have t: "trace ?s1 = trace s @ [AnnotationsRemove (cfiRange h) ''highlight'']"
    using Cons.prems by (simp add: overlay_call_defs emit_def Let_def)
  show ?case using Cons.IH [OF r] t by simp
qed

lemma add_all_trace:
  "renditionRef s \<Longrightarrow> \<forall>h\<in>set hs. \<not> add_throws (epub s) (cfiRange h) \<Longrightarrow>
     trace (snd (add_all hs s)) =
       trace s @ map (\<lambda>h. AnnotationsAdd ''highlight'' (cfiRange h) ''hl'' hl_style) hs"
proof (induction hs arbitrary: s)
  case Nil
  show ?case by simp
next
  case (Cons h hs)
  let ?s1 = "snd (ref_annotations_add (cfiRange h) s)"
  have ok: "\<not> add_throws (epub s) (cfiRange h)" using Cons.prems(2) by simp
  have f: "fst (ref_annotations_add (cfiRange h) s) = None"
    using Cons.prems(1) ok by (simp add: overlay_call_defs emit_def Let_def)
  have r: "renditionRef ?s1"
    using only_overlays_fields(6) [OF ref_add_only_overlays] Cons.prems(1) by simp
  have a: "add_throws (epub ?s1) = add_throws (epub s)"
    using only_overlays_fields(11) [OF ref_add_only_overlays] by simp
  have t: "trace ?s1 = trace s @ [AnnotationsAdd ''highlight'' (cfiRange h) ''hl'' hl_style]"
    using Cons.prems(1) ok by (simp add: overlay_call_defs emit_def Let_def)
  have "add_all (h # hs) s = add_all hs ?s1"
    using f by (cases "ref_annotations_add (cfiRange h) s") simp
  moreover have "trace (snd (add_all hs ?s1)) =
       trace ?s1 @ map (\<lambda>h. AnnotationsAdd ''highlight'' (cfiRange h) ''hl'' hl_style) hs"
    using Cons.IH [OF r] Cons.prems(2) a by simp
  ultimately show ?case using t by simp
qed

lemma reconcile_trace:
  assumes "renditionRef s" and "\<forall>h\<in>set hs. \<not> add_throws (epub s) (cfiRange h)"
  shows "trace (reconcile hs s) =
       trace s @ map (\<lambda>h. AnnotationsRemove (cfiRange h) ''highlight'') hs
               @ map (\<lambda>h. AnnotationsAdd ''highlight'' (cfiRange h) ''hl'' hl_style) hs"
proof -
  have r: "renditionRef (remove_all hs s)"
    using only_overlays_fields(6) [OF remove_all_only_overlays] assms(1) by simp
  have a: "add_throws (epub (remove_all hs s)) = add_throws (epub s)"
    using only_overlays_fields(11) [OF remove_all_only_overlays] by simp
  show ?thesis
    using add_all_trace [OF r, of hs] a assms remove_all_trace [OF assms(1), of hs]
    by (simp add: reconcile_def)
qed

lemma remove_all_overlays:
  "renditionRef s \<Longrightarrow>
     overlays (epub (remove_all hs s)) k =
       (if k \<in> overlay_key ` {h \<in> set hs. \<not> remove_throws (epub s) (cfiRange h)} then None
        else overlays (epub s) k)"
proof (induction hs arbitrary: s)
  case Nil
  show ?case by simp
next
  case (Cons h hs)
  let ?s1 = "snd (ref_annotations_remove (cfiRange h) s)"
  have r: "renditionRef ?s1"
    using only_overlays_fields(6) [OF ref_remove_only_overlays] Cons.prems by simp
  have t: "remove_throws (epub ?s1) = remove_throws (epub s)"
    using only_overlays_fields(12) [OF ref_remove_only_overlays] by simp
  have o: "overlays (epub ?s1) k =
             (if k = overlay_key h \<and> \<not> remove_throws (epub s) (cfiRange h) then None
              else overlays (epub s) k)"
    using Cons.prems by (simp add: overlay_call_defs emit_def Let_def overlay_key_def)
  show ?case using Cons.IH [OF r] t o by auto
qed

lemma add_all_overlays:
  "renditionRef s \<Longrightarrow>
     overlays (epub (snd (add_all hs s))) k =
       (if k \<in> overlay_key ` set (takeWhile (\<lambda>h. \<not> add_throws (epub s) (cfiRange h)) hs)
        then Some (''hl'', hl_style) else overlays (epub s) k)"
proof (induction hs arbitrary: s)
  case Nil
  show ?case by simp
next
  case (Cons h hs)
  let ?s1 = "snd (ref_annotations_add (cfiRange h) s)"
  have r: "renditionRef ?s1"
    using only_overlays_fields(6) [OF ref_add_only_overlays] Cons.prems by simp
  have a: "add_throws (epub ?s1) = add_throws (epub s)"
    using only_overlays_fields(11) [OF ref_add_only_overlays] by simp
  show ?case
  proof (cases "add_throws (epub s) (cfiRange h)")
    case True
    then have "ref_annotations_add (cfiRange h) s =
                 (Some (Thrown ''annotations.add''),
                  emit (AnnotationsAdd ''highlight'' (cfiRange h) ''hl'' hl_style) s)"
      using Cons.prems by (simp add: overlay_call_defs Let_def)
    then show ?thesis using True by (simp add: emit_def)
  next
    case False
    then have f: "fst (ref_annotations_add (cfiRange h) s) = None"
      using Cons.prems by (simp add: overlay_call_defs emit_def Let_def)
    have o: "overlays (epub ?s1) k =
               (if k = overlay_key h then Some (''hl'', hl_style) else overlays (epub s) k)"
      using Cons.prems False by (simp add: overlay_call_defs emit_def Let_def overlay_key_def)
    have "add_all (h # hs) s = add_all hs ?s1"
      using f by (cases "ref_annotations_add (cfiRange h) s") simp
    then show ?thesis using Cons.IH [OF r] a o False by auto
  qed
qed

lemma reconcile_overlays:
  assumes "renditionRef s"
  shows "overlays (epub (reconcile hs s)) k =
       (if k \<in> overlay_key ` set (takeWhile (\<lambda>h. \<not> add_throws (epub s) (cfiRange h)) hs)
        then Some (''hl'', hl_style)
        else if k \<in> overlay_key ` {h \<in> set hs. \<not> remove_throws (epub s) (cfiRange h)} then None
        else overlays (epub s) k)"
proof -
  have r: "renditionRef (remove_all hs s)"
    using only_overlays_fields(6) [OF remove_all_only_overlays] assms(1) by simp
  have a: "add_throws (epub (remove_all hs s)) = add_throws (epub s)"
    using only_overlays_fields(11) [OF remove_all_only_overlays] by simp
  show ?thesis
    using add_all_overlays [OF r, of hs k] a remove_all_overlays [OF assms, of hs k] assms
    by (simp add: reconcile_def)
qed

lemma reconcile_overlays_twice:
  "overlays (epub (reconcile hs (reconcile hs s))) = overlays (epub (reconcile hs s))"
proof (cases "renditionRef s")
  case False
  then show ?thesis by (simp add: reconcile_def)
next
  case True
  have r: "renditionRef (reconcile hs s)"
    using only_overlays_fields(6) [OF reconcile_only_overlays] True by simp
  have a: "add_throws (epub (reconcile hs s)) = add_throws (epub s)"
    using only_overlays_fields(11) [OF reconcile_only_overlays] by simp
  have b: "remove_throws (epub (reconcile hs s)) = remove_throws (epub s)"
    using only_overlays_fields(12) [OF reconcile_only_overlays] by simp
  show ?thesis
  proof
    fix k
    show "overlays (epub (reconcile hs (reconcile hs s))) k = overlays (epub (reconcile hs s)) k"
      unfolding reconcile_overlays [OF r] a b
      by (simp add: reconcile_overlays [OF True])
  qed
qed

text \<open>The marks: what the removals leave, and what the additions append.\<close>

lemma remove_last_append: "k \<in> set ys \<Longrightarrow> remove_last k (xs @ ys) = xs @ remove_last k ys"
  by (simp add: remove_last_def remove1_append)

lemma remove_last_distinct: "distinct ys \<Longrightarrow> remove_last k ys = filter (\<lambda>y. y \<noteq> k) ys"
proof -
  assume "distinct ys"
  then have "remove1 k (rev ys) = removeAll k (rev ys)"
    by (simp add: distinct_remove1_removeAll)
  also have "\<dots> = filter (\<lambda>y. y \<noteq> k) (rev ys)"
    by (induction ys) auto
  finally show ?thesis by (simp add: remove_last_def rev_filter)
qed

lemma unmark_coherent:
  "distinct Y \<Longrightarrow> \<forall>k\<in>set ks. (reg k \<noteq> None) = (k \<in> set Y) \<Longrightarrow>
     unmark reg ks (ms @ Y) = ms @ filter (\<lambda>y. y \<notin> set ks) Y"
proof (induction ks arbitrary: reg Y)
  case Nil
  show ?case by simp
next
  case (Cons k ks)
  show ?case
  proof (cases "reg k = None")
    case True
    then have n: "k \<notin> set Y" using Cons.prems(2) by simp
    have c: "\<forall>k'\<in>set ks. ((reg(k := None)) k' \<noteq> None) = (k' \<in> set Y)"
      using Cons.prems(2) n by auto
    have "unmark reg (k # ks) (ms @ Y) = unmark (reg(k := None)) ks (ms @ Y)"
      using True by simp
    also have "\<dots> = ms @ filter (\<lambda>y. y \<notin> set ks) Y"
      by (rule Cons.IH [OF Cons.prems(1) c])
    also have "filter (\<lambda>y. y \<notin> set ks) Y = filter (\<lambda>y. y \<notin> set (k # ks)) Y"
      using n by (intro filter_cong) auto
    finally show ?thesis .
  next
    case False
    then have i: "k \<in> set Y" using Cons.prems(2) by simp
    let ?Y = "filter (\<lambda>y. y \<noteq> k) Y"
    have d: "distinct ?Y" using Cons.prems(1) by simp
    have c: "\<forall>k'\<in>set ks. ((reg(k := None)) k' \<noteq> None) = (k' \<in> set ?Y)"
      using Cons.prems(2) by auto
    have r: "remove_last k (ms @ Y) = ms @ ?Y"
      using i Cons.prems(1) by (simp add: remove_last_append remove_last_distinct)
    have "unmark reg (k # ks) (ms @ Y) = unmark (reg(k := None)) ks (ms @ ?Y)"
      by (simp add: False r)
    also have "\<dots> = ms @ filter (\<lambda>y. y \<notin> set ks) ?Y"
      by (rule Cons.IH [OF d c])
    also have "filter (\<lambda>y. y \<notin> set ks) ?Y = filter (\<lambda>y. y \<notin> set (k # ks)) Y"
      by (simp add: conj_commute)
    finally show ?thesis .
  qed
qed

lemma remove_all_marks:
  "renditionRef s \<Longrightarrow> \<forall>h\<in>set hs. \<not> remove_throws (epub s) (cfiRange h) \<Longrightarrow>
     marks (epub (remove_all hs s)) =
       unmark (overlays (epub s)) (map overlay_key hs) (marks (epub s))"
proof (induction hs arbitrary: s)
  case Nil
  show ?case by simp
next
  case (Cons h hs)
  let ?s1 = "snd (ref_annotations_remove (cfiRange h) s)"
  have ok: "\<not> remove_throws (epub s) (cfiRange h)" using Cons.prems(2) by simp
  have r: "renditionRef ?s1"
    using only_overlays_fields(6) [OF ref_remove_only_overlays] Cons.prems(1) by simp
  have t: "remove_throws (epub ?s1) = remove_throws (epub s)"
    using only_overlays_fields(12) [OF ref_remove_only_overlays] by simp
  have o: "overlays (epub ?s1) = (overlays (epub s))(overlay_key h := None)"
    using Cons.prems(1) ok by (simp add: overlay_call_defs emit_def Let_def overlay_key_def)
  have m: "marks (epub ?s1) =
             (if overlays (epub s) (overlay_key h) = None then marks (epub s)
              else remove_last (overlay_key h) (marks (epub s)))"
    using Cons.prems(1) ok by (simp add: overlay_call_defs emit_def Let_def overlay_key_def)
  have "marks (epub (remove_all hs ?s1)) =
          unmark (overlays (epub ?s1)) (map overlay_key hs) (marks (epub ?s1))"
    using Cons.IH [OF r] Cons.prems(2) t by simp
  then show ?case by (simp add: o m)
qed

lemma add_all_marks:
  "renditionRef s \<Longrightarrow>
     marks (epub (snd (add_all hs s))) =
       marks (epub s) @ map overlay_key (takeWhile (\<lambda>h. \<not> add_throws (epub s) (cfiRange h)) hs)"
proof (induction hs arbitrary: s)
  case Nil
  show ?case by simp
next
  case (Cons h hs)
  let ?s1 = "snd (ref_annotations_add (cfiRange h) s)"
  have r: "renditionRef ?s1"
    using only_overlays_fields(6) [OF ref_add_only_overlays] Cons.prems by simp
  have a: "add_throws (epub ?s1) = add_throws (epub s)"
    using only_overlays_fields(11) [OF ref_add_only_overlays] by simp
  show ?case
  proof (cases "add_throws (epub s) (cfiRange h)")
    case True
    then have "ref_annotations_add (cfiRange h) s =
                 (Some (Thrown ''annotations.add''),
                  emit (AnnotationsAdd ''highlight'' (cfiRange h) ''hl'' hl_style) s)"
      using Cons.prems by (simp add: overlay_call_defs Let_def)
    then show ?thesis using True by (simp add: emit_def)
  next
    case False
    then have f: "fst (ref_annotations_add (cfiRange h) s) = None"
      using Cons.prems by (simp add: overlay_call_defs emit_def Let_def)
    have m: "marks (epub ?s1) = marks (epub s) @ [overlay_key h]"
      using Cons.prems False by (simp add: overlay_call_defs emit_def Let_def overlay_key_def)
    have "add_all (h # hs) s = add_all hs ?s1"
      using f by (cases "ref_annotations_add (cfiRange h) s") simp
    then show ?thesis using Cons.IH [OF r] a m False by simp
  qed
qed

lemma reconcile_marks:
  assumes "renditionRef s" and "\<forall>h\<in>set hs. \<not> remove_throws (epub s) (cfiRange h)"
  shows "marks (epub (reconcile hs s)) =
       unmark (overlays (epub s)) (map overlay_key hs) (marks (epub s))
         @ map overlay_key (takeWhile (\<lambda>h. \<not> add_throws (epub s) (cfiRange h)) hs)"
proof -
  have r: "renditionRef (remove_all hs s)"
    using only_overlays_fields(6) [OF remove_all_only_overlays] assms(1) by simp
  have a: "add_throws (epub (remove_all hs s)) = add_throws (epub s)"
    using only_overlays_fields(11) [OF remove_all_only_overlays] by simp
  show ?thesis
    using add_all_marks [OF r, of hs] a remove_all_marks [OF assms] assms(1)
    by (simp add: reconcile_def)
qed

lemma distinct_keys: "distinct (map cfiRange hs) \<Longrightarrow> distinct (map overlay_key hs)"
  by (induction hs) (auto simp: overlay_key_def)

lemma distinct_keys_prefix:
  "distinct (map cfiRange hs) \<Longrightarrow> distinct (map overlay_key (takeWhile P hs))"
  by (induction hs) (auto simp: overlay_key_def dest: set_takeWhileD)

lemma reconcile_marks_twice:
  assumes r: "renditionRef s" and d: "distinct (map cfiRange hs)"
    and nr: "\<forall>h\<in>set hs. \<not> remove_throws (epub s) (cfiRange h)"
  shows "marks (epub (reconcile hs (reconcile hs s))) = marks (epub (reconcile hs s))"
proof -
  let ?s' = "reconcile hs s"
  let ?P = "map overlay_key (takeWhile (\<lambda>h. \<not> add_throws (epub s) (cfiRange h)) hs)"
  let ?M = "unmark (overlays (epub s)) (map overlay_key hs) (marks (epub s))"
  have r': "renditionRef ?s'"
    using only_overlays_fields(6) [OF reconcile_only_overlays] r by simp
  have a: "add_throws (epub ?s') = add_throws (epub s)"
    using only_overlays_fields(11) [OF reconcile_only_overlays] by simp
  have b: "remove_throws (epub ?s') = remove_throws (epub s)"
    using only_overlays_fields(12) [OF reconcile_only_overlays] by simp
  have m1: "marks (epub ?s') = ?M @ ?P" by (rule reconcile_marks [OF r nr])
  have nr': "\<forall>h\<in>set hs. \<not> remove_throws (epub ?s') (cfiRange h)" using nr b by simp
  have m2: "marks (epub (reconcile hs ?s')) =
              unmark (overlays (epub ?s')) (map overlay_key hs) (?M @ ?P) @ ?P"
    using reconcile_marks [OF r' nr'] by (simp add: a m1)
  have dP: "distinct ?P" by (rule distinct_keys_prefix [OF d])
  have co: "\<forall>k\<in>set (map overlay_key hs). (overlays (epub ?s') k \<noteq> None) = (k \<in> set ?P)"
  proof
    fix k
    assume "k \<in> set (map overlay_key hs)"
    then have "k \<in> overlay_key ` {h \<in> set hs. \<not> remove_throws (epub s) (cfiRange h)}"
      using nr by auto
    then show "(overlays (epub ?s') k \<noteq> None) = (k \<in> set ?P)"
      by (simp add: reconcile_overlays [OF r])
  qed
  have sub: "set ?P \<subseteq> set (map overlay_key hs)"
    using set_takeWhileD by fastforce
  have "unmark (overlays (epub ?s')) (map overlay_key hs) (?M @ ?P)
          = ?M @ filter (\<lambda>y. y \<notin> set (map overlay_key hs)) ?P"
    by (rule unmark_coherent [OF dP co])
  also have "filter (\<lambda>y. y \<notin> set (map overlay_key hs)) ?P = []"
    using sub by (auto simp: filter_empty_conv)
  finally show ?thesis by (simp add: m1 m2)
qed

lemma reconcile_marks_tidy:
  assumes r: "renditionRef s" and d: "distinct (map cfiRange hs)"
    and nr: "\<forall>h\<in>set hs. \<not> remove_throws (epub s) (cfiRange h)"
    and na: "\<forall>h\<in>set hs. \<not> add_throws (epub s) (cfiRange h)"
    and t: "tidy (epub s)"
  shows "marks (epub (reconcile hs s)) =
           filter (\<lambda>k. k \<notin> overlay_key ` set hs) (marks (epub s)) @ map overlay_key hs"
    and "tidy (epub (reconcile hs s))"
proof -
  have tw: "takeWhile (\<lambda>h. \<not> add_throws (epub s) (cfiRange h)) hs = hs"
    using na by (induction hs) auto
  have dm: "distinct (marks (epub s))" and sm: "set (marks (epub s)) = dom (overlays (epub s))"
    using t by (simp_all add: tidy_def)
  have co: "\<forall>k\<in>set (map overlay_key hs). (overlays (epub s) k \<noteq> None) = (k \<in> set (marks (epub s)))"
    using sm by (auto simp: dom_def)
  have "unmark (overlays (epub s)) (map overlay_key hs) ([] @ marks (epub s))
          = [] @ filter (\<lambda>y. y \<notin> set (map overlay_key hs)) (marks (epub s))"
    by (rule unmark_coherent [OF dm co])
  then have u: "unmark (overlays (epub s)) (map overlay_key hs) (marks (epub s))
          = filter (\<lambda>k. k \<notin> overlay_key ` set hs) (marks (epub s))"
    by simp
  show m: "marks (epub (reconcile hs s)) =
           filter (\<lambda>k. k \<notin> overlay_key ` set hs) (marks (epub s)) @ map overlay_key hs"
    using reconcile_marks [OF r nr] by (simp add: tw u)
  have dk: "distinct (map overlay_key hs)" by (rule distinct_keys [OF d])
  have o: "overlays (epub (reconcile hs s)) k =
             (if k \<in> overlay_key ` set hs then Some (''hl'', hl_style) else overlays (epub s) k)" for k
    using reconcile_overlays [OF r, of hs k] by (auto simp: tw)
  have "dom (overlays (epub (reconcile hs s))) = dom (overlays (epub s)) \<union> overlay_key ` set hs"
    by (auto simp: dom_def o)
  moreover have "set (marks (epub (reconcile hs s))) = set (marks (epub s)) \<union> overlay_key ` set hs"
    by (auto simp: m)
  moreover have "distinct (marks (epub (reconcile hs s)))"
    using dm dk by (auto simp: m)
  ultimately show "tidy (epub (reconcile hs s))" using sm by (simp add: tidy_def)
qed

section \<open>Claims on persistence and on the font-size controls\<close>




text \<open>
  C10. For a book id that the store does not hold, \<open>updateBookProgress\<close>,
  \<open>addBookHighlight\<close> and \<open>removeBookHighlight\<close> each resolve (\<open>Inr\<close>) with the store
  unchanged, whatever the store would do on a write.
\<close>

theorem missing_book_is_noop:
  assumes "books d k = None"
  shows "updateBookProgress k cfi p d = Inr d
     \<and> addBookHighlight k h d = Inr d
     \<and> removeBookHighlight k c d = Inr d"
  using assms
  by (simp add: updateBookProgress_def addBookHighlight_def removeBookHighlight_def db_get_def)

theorem missing_book_is_noop_witness:
  "books db_full ''b2'' = None
   \<and> updateBookProgress ''b2'' ''epubcfi(/6/4)'' 40 db_full = Inr db_full
   \<and> addBookHighlight ''b2'' hA db_full = Inr db_full
   \<and> removeBookHighlight ''b2'' (cfiRange hA) db_full = Inr db_full"
proof -
  have n: "books db_full ''b2'' = None" by (simp add: db_full_def)
  show ?thesis using n missing_book_is_noop [OF n] by simp
qed

lemma press_in_range:
  "50 \<le> fontSize s \<Longrightarrow> fontSize s \<le> 200 \<Longrightarrow> 50 \<le> fontSize (press b s) \<and> fontSize (press b s) \<le> 200"
  by (cases b) (simp_all add: font_smaller_def font_larger_def)

lemma presses_in_range:
  "50 \<le> fontSize s \<Longrightarrow> fontSize s \<le> 200 \<Longrightarrow>
     50 \<le> fontSize (presses bs s) \<and> fontSize (presses bs s) \<le> 200"
proof (induction bs arbitrary: s)
  case Nil
  then show ?case by simp
next
  case (Cons b bs)
  from press_in_range [OF Cons.prems] Cons.IH [of "press b s"] show ?case by simp
qed

lemma settings_settings_effect: "settings (settings_effect s) = settings s"
  by (simp add: settings_effect_def clearTimeout_reconcile_def setTimeout_def applyTheme_def
      emit_def Let_def)

lemma settings_click: "settings (click b s) = press b (settings s)"
  by (cases b)
     (simp_all add: click_A_minus_def click_A_plus_def onUpdateSettings_def settings_settings_effect)

lemma settings_clicks: "settings (clicks bs s) = presses bs (settings s)"
  by (induction bs arbitrary: s) (simp_all add: settings_click)

text \<open>
  C9. With the font size in [50,200], the A- button sets it to \<open>max 50 (fontSize - 10)\<close>
  and the A+ button to \<open>min 200 (fontSize + 10)\<close>, and after any sequence of clicks on
  the two buttons it is in [50,200].
\<close>

theorem font_size_clamped:
  assumes "50 \<le> fontSize (settings s)" and "fontSize (settings s) \<le> 200"
  shows "fontSize (settings (click_A_minus s)) = max 50 (fontSize (settings s) - 10)
     \<and> fontSize (settings (click_A_plus s)) = min 200 (fontSize (settings s) + 10)
     \<and> 50 \<le> fontSize (settings (clicks bs s)) \<and> fontSize (settings (clicks bs s)) \<le> 200"
  using presses_in_range [OF assms]
  by (simp add: click_A_minus_def click_A_plus_def onUpdateSettings_def settings_settings_effect
      font_smaller_def font_larger_def settings_clicks)

theorem font_size_clamped_witness:
  "fontSize (settings (click_A_minus ready1)) = 90
   \<and> fontSize (settings (click_A_plus ready1)) = 110
   \<and> 50 \<le> fontSize (settings (clicks [A_minus, A_minus, A_minus, A_minus, A_minus, A_minus, A_plus] ready1))
   \<and> fontSize (settings (clicks [A_minus, A_minus, A_minus, A_minus, A_minus, A_minus, A_plus] ready1)) \<le> 200
   \<and> fontSize (settings (clicks [A_minus, A_minus, A_minus, A_minus, A_minus, A_minus, A_plus] ready1)) = 60"
proof -
  have st: "settings ready1 = DEFAULT_SETTINGS"
    by (simp add: ready1_def mounted1_def display_settled_def init_effect_def first_render_def
        applyTheme_def setter_defs Let_def)
  have a: "50 \<le> fontSize (settings ready1)" and b: "fontSize (settings ready1) \<le> 200"
    by (simp_all add: st DEFAULT_SETTINGS_def)
  have e: "fontSize (settings (clicks [A_minus, A_minus, A_minus, A_minus, A_minus, A_minus, A_plus] ready1)) = 60"
    unfolding settings_clicks by (simp add: st DEFAULT_SETTINGS_def font_smaller_def font_larger_def)
  from font_size_clamped [OF a b, of "[A_minus, A_minus, A_minus, A_minus, A_minus, A_minus, A_plus]"] e
  show ?thesis
    by (simp add: st DEFAULT_SETTINGS_def)
qed

section \<open>Claims on the settings effect and the reconciliation\<close>

lemma fire_keeps:
  "highlights_st (fire tm s) = highlights_st s \<and> db (fire tm s) = db s
   \<and> book (fire tm s) = book s \<and> highlightPopup (fire tm s) = highlightPopup s
   \<and> inflight (fire tm s) = inflight s"
proof (cases tm)
  case ResetJustCreated
  then show ?thesis by simp
next
  case (Reconcile hs)
  then show ?thesis
    using only_overlays_fields [OF reconcile_only_overlays, of hs s] by simp
qed

lemma fire_all_keeps:
  "highlights_st (fire_all ps s) = highlights_st s \<and> db (fire_all ps s) = db s
   \<and> book (fire_all ps s) = book s \<and> highlightPopup (fire_all ps s) = highlightPopup s
   \<and> inflight (fire_all ps s) = inflight s"
proof (induction ps arbitrary: s)
  case Nil
  show ?case by simp
next
  case (Cons p ps)
  show ?case using Cons.IH [of "fire (snd p) s"] fire_keeps [of "snd p" s] by simp
qed

lemma advance_keeps:
  "highlights_st (advance t s) = highlights_st s \<and> db (advance t s) = db s
   \<and> book (advance t s) = book s \<and> highlightPopup (advance t s) = highlightPopup s
   \<and> inflight (advance t s) = inflight s"
  by (simp add: advance_def Let_def fire_all_keeps)

lemma settings_effect_keeps:
  "highlights_st (settings_effect s) = highlights_st s \<and> db (settings_effect s) = db s
   \<and> book (settings_effect s) = book s \<and> highlightPopup (settings_effect s) = highlightPopup s
   \<and> justCreatedHighlightRef (settings_effect s) = justCreatedHighlightRef s
   \<and> inflight (settings_effect s) = inflight s"
  by (simp add: settings_effect_def clearTimeout_reconcile_def applyTheme_def setter_defs Let_def)

lemma settings_effect_timers:
  "renditionRef s \<Longrightarrow> isReady s \<Longrightarrow>
     timers (settings_effect s) =
       filter (\<lambda>p. \<not> is_reconcile (snd p)) (timers s) @ [(clock s + 100, Reconcile (highlights_st s))]"
  by (simp add: settings_effect_def clearTimeout_reconcile_def applyTheme_def setter_defs Let_def)

lemma filter_none: "\<forall>x\<in>set xs. \<not> P x \<Longrightarrow> filter P xs = []"
  by (induction xs) auto

lemma filter_all: "\<forall>x\<in>set xs. P x \<Longrightarrow> filter P xs = xs"
  by (induction xs) auto

lemma settings_change_then_timeout:
  assumes r: "renditionRef s" and i: "isReady s"
    and tm: "\<forall>p\<in>set (timers s). is_reconcile (snd p) \<or> clock s + 100 < fst p"
    and na: "\<forall>h\<in>set (highlights_st s). \<not> add_throws (epub s) (cfiRange h)"
  shows "trace (advance (clock s + 100) (onUpdateSettings st s)) =
           trace s @ [ThemesRegister ''custom'' (themeObj_of st), ThemesSelect ''custom'',
                      SetTimeout (Reconcile (highlights_st s)) 100]
             @ map (\<lambda>h. AnnotationsRemove (cfiRange h) ''highlight'') (highlights_st s)
             @ map (\<lambda>h. AnnotationsAdd ''highlight'' (cfiRange h) ''hl'' hl_style) (highlights_st s)"
proof -
  let ?hs = "highlights_st s"
  let ?T = "clock s + 100"
  let ?keep = "filter (\<lambda>p. \<not> is_reconcile (snd p)) (timers s)"
  let ?s1 = "onUpdateSettings st s"
  have t1: "timers ?s1 = ?keep @ [(?T, Reconcile ?hs)]"
    using settings_effect_timers [of "s\<lparr>settings := st\<rparr>"] r i by (simp add: onUpdateSettings_def)
  have tr1: "trace ?s1 = trace s @ [ThemesRegister ''custom'' (themeObj_of st), ThemesSelect ''custom'',
                      SetTimeout (Reconcile ?hs) 100]"
    using r i
    by (simp add: onUpdateSettings_def settings_effect_def clearTimeout_reconcile_def applyTheme_def
        setter_defs Let_def)
  have f1: "renditionRef ?s1" "epub ?s1 = epub s" "clock ?s1 = clock s"
    using r i
    by (simp_all add: onUpdateSettings_def settings_effect_def clearTimeout_reconcile_def applyTheme_def
        setter_defs Let_def)
  have late: "\<forall>p\<in>set ?keep. \<not> fst p \<le> ?T" using tm by auto
  have d0: "filter (\<lambda>p. fst p \<le> ?T) ?keep = []"
    using late by (intro filter_none) simp
  have l0: "filter (\<lambda>p. \<not> fst p \<le> ?T) ?keep = ?keep"
    by (rule filter_all [OF late])
  have due: "filter (\<lambda>p. fst p \<le> ?T) (timers ?s1) = [(?T, Reconcile ?hs)]"
    unfolding t1 filter_append d0 by simp
  have later: "filter (\<lambda>p. \<not> fst p \<le> ?T) (timers ?s1) = ?keep"
    unfolding t1 filter_append l0 by simp
  let ?s2 = "?s1\<lparr>clock := max ?T (clock ?s1), timers := ?keep\<rparr>"
  have a: "advance ?T ?s1 = reconcile ?hs ?s2"
    by (simp add: advance_def Let_def due later)
  have r2: "renditionRef ?s2" using f1 by simp
  have na2: "\<forall>h\<in>set ?hs. \<not> add_throws (epub ?s2) (cfiRange h)" using na f1 by simp
  have "trace (reconcile ?hs ?s2) =
       trace ?s2 @ map (\<lambda>h. AnnotationsRemove (cfiRange h) ''highlight'') ?hs
               @ map (\<lambda>h. AnnotationsAdd ''highlight'' (cfiRange h) ''hl'' hl_style) ?hs"
    by (rule reconcile_trace [OF r2 na2])
  then show ?thesis by (simp add: a tr1)
qed

lemma ready1_facts:
  "renditionRef ready1" "isReady ready1" "highlights_st ready1 = [hA, hB]" "clock ready1 = 5000"
  "timers ready1 = []" "epub ready1 = engine1" "containerRef ready1 = Some 800"
  "justCreatedHighlightRef ready1 = False" "highlightPopup ready1 = None" "db ready1 = db1"
  "book ready1 = book1" "settings ready1 = DEFAULT_SETTINGS" "bookRef ready1" "isHighlightModeRef ready1 = False"
  "inflight ready1 = []"
  by (simp_all add: ready1_def mounted1_def display_settled_def init_effect_def first_render_def
        applyTheme_def setter_defs Let_def book1_def)

lemma ready_stale_facts:
  "renditionRef ready_stale" "isReady ready_stale" "highlights_st ready_stale = [hA, hB]"
  "clock ready_stale = 5000" "timers ready_stale = []" "epub ready_stale = engine_stale"
  "settings ready_stale = DEFAULT_SETTINGS" "inflight ready_stale = []" "db ready_stale = db1"
  "isHighlightModeRef ready_stale = False" "book ready_stale = book1"
  "justCreatedHighlightRef ready_stale = False"
  by (simp_all add: ready_stale_def ready1_facts)

lemma ready_sound_facts:
  "renditionRef ready_sound" "isReady ready_sound" "highlights_st ready_sound = [hA, hB]"
  "clock ready_sound = 5000" "timers ready_sound = []"
  "epub ready_sound = engine1\<lparr>remove_throws := (\<lambda>c. False)\<rparr>"
  by (simp_all add: ready_sound_def ready1_facts)

text \<open>
  C1. The session shows the overlays of its highlights \<open>hA\<close> and \<open>hB\<close>, and the engine
  can no longer resolve the range of \<open>hA\<close>. A click on A+ sets the font size to 110
  and arms the 100 ms timeout with both highlights. When the timeout has run, the
  highlights of the session are as they were, but the overlay of \<open>hB\<close>, whose
  re-application would have succeeded, has been removed and not added again: the
  calls on the engine are the new theme, the two removals and the one \<open>add\<close> that
  throws, and no mark is left on the page.
\<close>

theorem settings_change_loses_overlay:
  "timers (click_A_plus ready_stale) = [(5100, Reconcile [hA, hB])]
   \<and> fontSize (settings (click_A_plus ready_stale)) = 110
   \<and> trace (advance 5100 (click_A_plus ready_stale)) =
       trace ready_stale @ [ThemesRegister ''custom'' (themeObj_of (font_larger DEFAULT_SETTINGS)),
                            ThemesSelect ''custom'',
                            SetTimeout (Reconcile [hA, hB]) 100,
                            AnnotationsRemove (cfiRange hA) ''highlight'',
                            AnnotationsRemove (cfiRange hB) ''highlight'',
                            AnnotationsAdd ''highlight'' (cfiRange hA) ''hl'' hl_style]
   \<and> highlights_st (advance 5100 (click_A_plus ready_stale)) = [hA, hB]
   \<and> add_throws (epub ready_stale) (cfiRange hB) = False
   \<and> overlays (epub ready_stale) (overlay_key hB) = Some (''hl'', hl_style)
   \<and> marks (epub ready_stale) = [overlay_key hA, overlay_key hB]
   \<and> overlays (epub (advance 5100 (click_A_plus ready_stale))) (overlay_key hB) = None
   \<and> marks (epub (advance 5100 (click_A_plus ready_stale))) = []"
proof -
  have c: "click_A_plus ready_stale =
             ready_stale\<lparr>settings := font_larger DEFAULT_SETTINGS,
                         timers := [(5100, Reconcile [hA, hB])],
                         trace := trace ready_stale @
                           [ThemesRegister ''custom'' (themeObj_of (font_larger DEFAULT_SETTINGS)),
                            ThemesSelect ''custom'', SetTimeout (Reconcile [hA, hB]) 100]\<rparr>"
    by (simp add: click_A_plus_def onUpdateSettings_def settings_effect_def clearTimeout_reconcile_def
        applyTheme_def setter_defs Let_def ready_stale_facts)
  have a: "advance 5100 (click_A_plus ready_stale) =
             reconcile [hA, hB]
               (ready_stale\<lparr>settings := font_larger DEFAULT_SETTINGS,
                            trace := trace ready_stale @
                              [ThemesRegister ''custom'' (themeObj_of (font_larger DEFAULT_SETTINGS)),
                               ThemesSelect ''custom'', SetTimeout (Reconcile [hA, hB]) 100],
                            clock := 5100, timers := []\<rparr>)"
    by (simp add: c advance_def Let_def ready_stale_facts)
  have k: "overlay_key hA \<noteq> overlay_key hB" "cfiRange hB \<noteq> cfiRange hA"
    by (simp_all add: overlay_key_def hA_def hB_def)
  have 1: "timers (click_A_plus ready_stale) = [(5100, Reconcile [hA, hB])]" by (simp add: c)
  have 2: "fontSize (settings (click_A_plus ready_stale)) = 110"
    by (simp add: c font_larger_def DEFAULT_SETTINGS_def)
  have 3: "trace (advance 5100 (click_A_plus ready_stale)) =
       trace ready_stale @ [ThemesRegister ''custom'' (themeObj_of (font_larger DEFAULT_SETTINGS)),
                            ThemesSelect ''custom'',
                            SetTimeout (Reconcile [hA, hB]) 100,
                            AnnotationsRemove (cfiRange hA) ''highlight'',
                            AnnotationsRemove (cfiRange hB) ''highlight'',
                            AnnotationsAdd ''highlight'' (cfiRange hA) ''hl'' hl_style]"
    by (simp add: a reconcile_def overlay_call_defs emit_def Let_def ready_stale_facts engine_stale_def engine1_def)
  have 4: "highlights_st (advance 5100 (click_A_plus ready_stale)) = [hA, hB]"
    using only_overlays_fields(4) [OF reconcile_only_overlays] by (simp add: a ready_stale_facts)
  have 5: "add_throws (epub ready_stale) (cfiRange hB) = False"
    by (simp add: ready_stale_facts engine_stale_def k)
  have 6: "overlays (epub ready_stale) (overlay_key hB) = Some (''hl'', hl_style)"
    by (simp add: ready_stale_facts engine_stale_def)
  have 7: "marks (epub ready_stale) = [overlay_key hA, overlay_key hB]"
    by (simp add: ready_stale_facts engine_stale_def)
  have 8: "overlays (epub (advance 5100 (click_A_plus ready_stale))) (overlay_key hB) = None"
    by (simp add: a reconcile_def overlay_call_defs emit_def Let_def ready_stale_facts engine_stale_def
        engine1_def overlay_key_def)
  have 9: "marks (epub (advance 5100 (click_A_plus ready_stale))) = []"
    by (simp add: a reconcile_def overlay_call_defs emit_def Let_def ready_stale_facts engine_stale_def
        engine1_def overlay_key_def remove_last_def hA_def hB_def)
  show ?thesis using 1 2 3 4 5 6 7 8 9 by blast
qed

text \<open>
  What does hold of a settings mutation (\<open>onUpdateSettings\<close>, which the font and theme
  buttons call) for every engine: followed by any lapse of time, so before or after the
  100 ms timeout has run, it leaves the list of highlights of the session as it was
  (hence every \<open>cfiRange\<close>, \<open>color\<close>, text and \<open>created\<close>, the membership and the
  order), and the stored record, the calls in flight and the book too. With the engine
  ready, the mutation arms the timeout with the highlights of the session; and 100 ms
  later, no other timer being due and no re-application throwing, the calls made are
  the theme, then \<open>remove\<close> for every highlight, then \<open>add\<close> for every highlight.
\<close>

theorem settings_change_keeps_highlights:
  "highlights_st (advance t (onUpdateSettings st s)) = highlights_st s
   \<and> db (advance t (onUpdateSettings st s)) = db s
   \<and> inflight (advance t (onUpdateSettings st s)) = inflight s
   \<and> book (advance t (onUpdateSettings st s)) = book s
   \<and> (renditionRef s \<and> isReady s \<longrightarrow>
        timers (onUpdateSettings st s) =
          filter (\<lambda>p. \<not> is_reconcile (snd p)) (timers s) @ [(clock s + 100, Reconcile (highlights_st s))])
   \<and> (renditionRef s \<and> isReady s
        \<and> (\<forall>p\<in>set (timers s). is_reconcile (snd p) \<or> clock s + 100 < fst p)
        \<and> (\<forall>h\<in>set (highlights_st s). \<not> add_throws (epub s) (cfiRange h)) \<longrightarrow>
        trace (advance (clock s + 100) (onUpdateSettings st s)) =
          trace s @ [ThemesRegister ''custom'' (themeObj_of st), ThemesSelect ''custom'',
                     SetTimeout (Reconcile (highlights_st s)) 100]
            @ map (\<lambda>h. AnnotationsRemove (cfiRange h) ''highlight'') (highlights_st s)
            @ map (\<lambda>h. AnnotationsAdd ''highlight'' (cfiRange h) ''hl'' hl_style) (highlights_st s))
   \<and> highlights_st (advance t (click_A_minus s)) = highlights_st s
   \<and> highlights_st (advance t (click_A_plus s)) = highlights_st s
   \<and> highlights_st (advance t (click_theme th s)) = highlights_st s"
proof -
  have b: "highlights_st (advance t (onUpdateSettings st' s)) = highlights_st s" for st'
    using advance_keeps [of t "onUpdateSettings st' s"] settings_effect_keeps [of "s\<lparr>settings := st'\<rparr>"]
    by (simp add: onUpdateSettings_def)
  let ?s' = "onUpdateSettings st s"
  have k: "highlights_st ?s' = highlights_st s \<and> db ?s' = db s \<and> book ?s' = book s
           \<and> inflight ?s' = inflight s"
    using settings_effect_keeps [of "s\<lparr>settings := st\<rparr>"] by (simp add: onUpdateSettings_def)
  have 1: "highlights_st (advance t ?s') = highlights_st s"
    using advance_keeps [of t ?s'] k by simp
  have 2: "db (advance t ?s') = db s" using advance_keeps [of t ?s'] k by simp
  have inf: "inflight (advance t ?s') = inflight s" using advance_keeps [of t ?s'] k by simp
  have 3: "book (advance t ?s') = book s" using advance_keeps [of t ?s'] k by simp
  have 4: "renditionRef s \<and> isReady s \<longrightarrow>
        timers ?s' =
          filter (\<lambda>p. \<not> is_reconcile (snd p)) (timers s) @ [(clock s + 100, Reconcile (highlights_st s))]"
    using settings_effect_timers [of "s\<lparr>settings := st\<rparr>"] by (simp add: onUpdateSettings_def)
  have 5: "renditionRef s \<and> isReady s
        \<and> (\<forall>p\<in>set (timers s). is_reconcile (snd p) \<or> clock s + 100 < fst p)
        \<and> (\<forall>h\<in>set (highlights_st s). \<not> add_throws (epub s) (cfiRange h)) \<longrightarrow>
        trace (advance (clock s + 100) (onUpdateSettings st s)) =
          trace s @ [ThemesRegister ''custom'' (themeObj_of st), ThemesSelect ''custom'',
                     SetTimeout (Reconcile (highlights_st s)) 100]
            @ map (\<lambda>h. AnnotationsRemove (cfiRange h) ''highlight'') (highlights_st s)
            @ map (\<lambda>h. AnnotationsAdd ''highlight'' (cfiRange h) ''hl'' hl_style) (highlights_st s)"
    using settings_change_then_timeout [of s st] by blast
  have 6: "highlights_st (advance t (click_A_minus s)) = highlights_st s"
    "highlights_st (advance t (click_A_plus s)) = highlights_st s"
    "highlights_st (advance t (click_theme th s)) = highlights_st s"
    using b by (simp_all add: click_A_minus_def click_A_plus_def click_theme_def)
  show ?thesis using 1 2 inf 3 4 5 6 by blast
qed

theorem settings_change_keeps_highlights_witness:
  "highlights_st (advance 5100 (onUpdateSettings (font_larger DEFAULT_SETTINGS) ready1)) = [hA, hB]
   \<and> timers (onUpdateSettings (font_larger DEFAULT_SETTINGS) ready1) = [(5100, Reconcile [hA, hB])]
   \<and> trace (advance 5100 (onUpdateSettings (font_larger DEFAULT_SETTINGS) ready1)) =
        trace ready1 @ [ThemesRegister ''custom'' (themeObj_of (font_larger DEFAULT_SETTINGS)),
                        ThemesSelect ''custom'', SetTimeout (Reconcile [hA, hB]) 100,
                        AnnotationsRemove (cfiRange hA) ''highlight'', AnnotationsRemove (cfiRange hB) ''highlight'',
                        AnnotationsAdd ''highlight'' (cfiRange hA) ''hl'' hl_style,
                        AnnotationsAdd ''highlight'' (cfiRange hB) ''hl'' hl_style]"
proof -
  note w = settings_change_keeps_highlights [of 5100 "font_larger DEFAULT_SETTINGS" ready1 night]
  have p: "renditionRef ready1 \<and> isReady ready1" by (simp add: ready1_facts)
  have a: "renditionRef ready1 \<and> isReady ready1
        \<and> (\<forall>p\<in>set (timers ready1). is_reconcile (snd p) \<or> clock ready1 + 100 < fst p)
        \<and> (\<forall>h\<in>set (highlights_st ready1). \<not> add_throws (epub ready1) (cfiRange h))"
    by (simp add: ready1_facts engine1_def)
  have 1: "highlights_st (advance 5100 (onUpdateSettings (font_larger DEFAULT_SETTINGS) ready1)) = highlights_st ready1"
    using w by blast
  have 2: "timers (onUpdateSettings (font_larger DEFAULT_SETTINGS) ready1) =
          filter (\<lambda>p. \<not> is_reconcile (snd p)) (timers ready1) @ [(clock ready1 + 100, Reconcile (highlights_st ready1))]"
    using w p by blast
  have 3: "trace (advance (clock ready1 + 100) (onUpdateSettings (font_larger DEFAULT_SETTINGS) ready1)) =
          trace ready1 @ [ThemesRegister ''custom'' (themeObj_of (font_larger DEFAULT_SETTINGS)), ThemesSelect ''custom'',
                     SetTimeout (Reconcile (highlights_st ready1)) 100]
            @ map (\<lambda>h. AnnotationsRemove (cfiRange h) ''highlight'') (highlights_st ready1)
            @ map (\<lambda>h. AnnotationsAdd ''highlight'' (cfiRange h) ''hl'' hl_style) (highlights_st ready1)"
    using w a by blast
  show ?thesis using 1 2 3 by (simp add: ready1_facts)
qed

lemma takeWhile_all: "\<forall>x\<in>set xs. P x \<Longrightarrow> takeWhile P xs = xs"
  by (induction xs) auto

text \<open>
  C2 (as amended). For a collection whose identifiers are pairwise distinct, on an engine
  whose \<open>remove\<close> throws for none of them, running the timeout body twice leaves the
  same marks on the page, and the same registry, as running it once; this also when an
  \<open>add\<close> throws. When moreover no \<open>add\<close> throws and the marks found were tidy
  (one mark for each registered annotation), the marks left are those found under
  other identifiers, followed by one mark for each highlight of the collection, in its
  order, each registered with the fixed style; they are tidy again, so no mark is
  doubled and none is left without its annotation; and they are exactly one mark per
  highlight when every mark found belonged to a highlight of the collection.
\<close>

theorem reconcile_twice_same_marks:
  assumes "renditionRef s" and "distinct (map cfiRange hs)"
    and "\<forall>h\<in>set hs. \<not> remove_throws (epub s) (cfiRange h)"
  shows "marks (epub (reconcile hs (reconcile hs s))) = marks (epub (reconcile hs s))
     \<and> overlays (epub (reconcile hs (reconcile hs s))) = overlays (epub (reconcile hs s))
     \<and> ((\<forall>h\<in>set hs. \<not> add_throws (epub s) (cfiRange h)) \<and> tidy (epub s) \<longrightarrow>
          marks (epub (reconcile hs s)) =
            filter (\<lambda>k. k \<notin> overlay_key ` set hs) (marks (epub s)) @ map overlay_key hs
          \<and> tidy (epub (reconcile hs s))
          \<and> (\<forall>h\<in>set hs. overlays (epub (reconcile hs s)) (overlay_key h) = Some (''hl'', hl_style))
          \<and> (set (marks (epub s)) \<subseteq> overlay_key ` set hs \<longrightarrow>
               marks (epub (reconcile hs s)) = map overlay_key hs))"
proof -
  have 1: "marks (epub (reconcile hs (reconcile hs s))) = marks (epub (reconcile hs s))"
    by (rule reconcile_marks_twice [OF assms])
  have 2: "overlays (epub (reconcile hs (reconcile hs s))) = overlays (epub (reconcile hs s))"
    by (rule reconcile_overlays_twice)
  have 3: "marks (epub (reconcile hs s)) =
            filter (\<lambda>k. k \<notin> overlay_key ` set hs) (marks (epub s)) @ map overlay_key hs
          \<and> tidy (epub (reconcile hs s))
          \<and> (\<forall>h\<in>set hs. overlays (epub (reconcile hs s)) (overlay_key h) = Some (''hl'', hl_style))
          \<and> (set (marks (epub s)) \<subseteq> overlay_key ` set hs \<longrightarrow>
               marks (epub (reconcile hs s)) = map overlay_key hs)"
    if na: "\<forall>h\<in>set hs. \<not> add_throws (epub s) (cfiRange h)" and t: "tidy (epub s)"
  proof -
    note m = reconcile_marks_tidy [OF assms na t]
    have tw: "takeWhile (\<lambda>h. \<not> add_throws (epub s) (cfiRange h)) hs = hs"
      using na by (rule takeWhile_all)
    have o: "\<forall>h\<in>set hs. overlays (epub (reconcile hs s)) (overlay_key h) = Some (''hl'', hl_style)"
      by (simp add: reconcile_overlays [OF assms(1)] tw)
    have e: "marks (epub (reconcile hs s)) = map overlay_key hs"
      if "set (marks (epub s)) \<subseteq> overlay_key ` set hs"
    proof -
      have "\<forall>k\<in>set (marks (epub s)). \<not> k \<notin> overlay_key ` set hs" using that by auto
      then have "filter (\<lambda>k. k \<notin> overlay_key ` set hs) (marks (epub s)) = []"
        by (rule filter_none)
      then show ?thesis by (simp add: m(1))
    qed
    show ?thesis using m o e by blast
  qed
  show ?thesis using 1 2 3 by blast
qed

theorem reconcile_twice_same_marks_witness:
  "marks (epub (reconcile [hA, hB] (reconcile [hA, hB] ready_sound))) = [overlay_key hA, overlay_key hB]
   \<and> marks (epub (reconcile [hA, hB] ready_sound)) = [overlay_key hA, overlay_key hB]
   \<and> tidy (epub (reconcile [hA, hB] ready_sound))
   \<and> overlays (epub (reconcile [hA, hB] ready_sound)) (overlay_key hA) = Some (''hl'', hl_style)
   \<and> overlays (epub (reconcile [hA, hB] ready_sound)) (overlay_key hB) = Some (''hl'', hl_style)
   \<and> marks (epub (reconcile [hA, hB] (reconcile [hA, hB] ready_stale)))
       = marks (epub (reconcile [hA, hB] ready_stale))"
proof -
  have r: "renditionRef ready_sound" by (simp add: ready_sound_facts)
  have d: "distinct (map cfiRange [hA, hB])" by (simp add: hA_def hB_def)
  have nr: "\<forall>h\<in>set [hA, hB]. \<not> remove_throws (epub ready_sound) (cfiRange h)"
    by (simp add: ready_sound_facts)
  have na: "\<forall>h\<in>set [hA, hB]. \<not> add_throws (epub ready_sound) (cfiRange h)"
    by (simp add: ready_sound_facts engine1_def)
  have t: "tidy (epub ready_sound)" by (simp add: ready_sound_facts engine1_def tidy_def)
  have e: "set (marks (epub ready_sound)) \<subseteq> overlay_key ` set [hA, hB]"
    by (simp add: ready_sound_facts engine1_def)
  have r': "renditionRef ready_stale" by (simp add: ready_stale_facts)
  have nr': "\<forall>h\<in>set [hA, hB]. \<not> remove_throws (epub ready_stale) (cfiRange h)"
    by (simp add: ready_stale_facts engine_stale_def)
  note w = reconcile_twice_same_marks [OF r d nr]
  note w' = reconcile_twice_same_marks [OF r' d nr']
  have 1: "marks (epub (reconcile [hA, hB] (reconcile [hA, hB] ready_sound)))
             = marks (epub (reconcile [hA, hB] ready_sound))"
    using w by blast
  have 2: "marks (epub (reconcile [hA, hB] ready_sound)) = map overlay_key [hA, hB]"
    using w na t e by blast
  have 3: "tidy (epub (reconcile [hA, hB] ready_sound))" using w na t by blast
  have 4: "\<forall>h\<in>set [hA, hB]. overlays (epub (reconcile [hA, hB] ready_sound)) (overlay_key h) = Some (''hl'', hl_style)"
    using w na t by blast
  have 5: "marks (epub (reconcile [hA, hB] (reconcile [hA, hB] ready_stale)))
       = marks (epub (reconcile [hA, hB] ready_stale))"
    using w' by blast
  show ?thesis using 1 2 3 4 5 by simp
qed

text \<open>
  C2 as the specification words it, for every collection, fails. The collection can hold
  an identifier twice (\<open>hA\<close> and \<open>hA2\<close>: the mouseup listener appends without a check):
  one pass then draws two marks for that identifier, and a second pass, which removes
  only the mark drawn last, leaves three. And where \<open>remove\<close> throws (the engine of
  \<open>ready1\<close>), the marks of the first pass stay and the second pass doubles them.
\<close>

theorem reconcile_twice_counterexample:
  "cfiRange hA2 = cfiRange hA
   \<and> marks (epub (reconcile [hA, hA2, hB] ready_sound))
       = [overlay_key hA, overlay_key hA, overlay_key hB]
   \<and> marks (epub (reconcile [hA, hA2, hB] (reconcile [hA, hA2, hB] ready_sound)))
       = [overlay_key hA, overlay_key hA, overlay_key hA, overlay_key hB]
   \<and> marks (epub (reconcile [hA, hB] ready1)) = [overlay_key hA, overlay_key hB]
   \<and> marks (epub (reconcile [hA, hB] (reconcile [hA, hB] ready1)))
       = [overlay_key hA, overlay_key hB, overlay_key hA, overlay_key hB]"
  by (simp add: reconcile_def overlay_call_defs emit_def Let_def ready_sound_facts ready1_facts
      engine1_def overlay_key_def remove_last_def hA_def hA2_def hB_def)

text \<open>
  C3. The second loop of the timeout body has no handler. With the highlights \<open>hA\<close>
  and \<open>hB\<close>, both shown, and an engine that can no longer resolve the range of \<open>hA\<close>:
  both overlays are removed, \<open>add\<close> is called for \<open>hA\<close> and throws, and \<open>add\<close> is
  never called for \<open>hB\<close>, whose re-application would have succeeded; its overlay is
  gone, and of the two marks on the page none is left.
\<close>

theorem readd_stops_at_first_failure:
  "trace (reconcile [hA, hB] ready_stale) =
     trace ready_stale @ [AnnotationsRemove (cfiRange hA) ''highlight'',
                          AnnotationsRemove (cfiRange hB) ''highlight'',
                          AnnotationsAdd ''highlight'' (cfiRange hA) ''hl'' hl_style]
   \<and> highlights_st ready_stale = [hA, hB]
   \<and> add_throws (epub ready_stale) (cfiRange hB) = False
   \<and> overlays (epub ready_stale) (overlay_key hB) = Some (''hl'', hl_style)
   \<and> overlays (epub (reconcile [hA, hB] ready_stale)) (overlay_key hB) = None
   \<and> marks (epub ready_stale) = [overlay_key hA, overlay_key hB]
   \<and> marks (epub (reconcile [hA, hB] ready_stale)) = []"
  by (simp add: reconcile_def overlay_call_defs emit_def Let_def overlay_key_def remove_last_def
      ready_stale_def ready1_def mounted1_def display_settled_def init_effect_def first_render_def engine_stale_def engine1_def
      applyTheme_def setter_defs book1_def hA_def hB_def)

text \<open>
  The first loop does catch: \<open>remove\<close> is called for every highlight of the collection,
  in order, whichever of the calls throw, and the highlights are as they were.
\<close>

theorem removal_failures_are_swallowed:
  assumes "renditionRef s"
  shows "trace (remove_all hs s) = trace s @ map (\<lambda>h. AnnotationsRemove (cfiRange h) ''highlight'') hs
     \<and> highlights_st (remove_all hs s) = highlights_st s"
  using remove_all_trace [OF assms] only_overlays_fields(4) [OF remove_all_only_overlays] by simp

theorem removal_failures_are_swallowed_witness:
  "remove_throws (epub ready1) (cfiRange hA) \<and> remove_throws (epub ready1) (cfiRange hB)
   \<and> trace (remove_all [hA, hB] ready1) =
       trace ready1 @ [AnnotationsRemove (cfiRange hA) ''highlight'', AnnotationsRemove (cfiRange hB) ''highlight'']"
  using removal_failures_are_swallowed [of ready1 "[hA, hB]"]
  by (simp add: ready1_facts engine1_def)

section \<open>Claim on the progress percentage\<close>

text \<open>
  Rounding to a double moves a real number no farther than to the integers around it:
  integers below \<open>2 ^ 53\<close> are doubles.
\<close>

lemma round_half_even_bounds: "\<lfloor>x\<rfloor> \<le> round_half_even x \<and> round_half_even x \<le> \<lceil>x\<rceil>"
proof -
  have "x - of_int \<lfloor>x\<rfloor> < 1 / 2 \<or> \<lfloor>x\<rfloor> + 1 \<le> \<lceil>x\<rceil>"
  proof (cases "x = of_int \<lfloor>x\<rfloor>")
    case True then show ?thesis by simp
  next
    case False
    then have "of_int \<lfloor>x\<rfloor> < x" by (metis floor_less_iff less_le not_le of_int_floor_le order_refl) 
    then have "\<lfloor>x\<rfloor> < \<lceil>x\<rceil>" by (simp add: floor_less_iff less_ceiling_iff)
    then show ?thesis by simp
  qed
  moreover have "\<lfloor>x\<rfloor> \<le> \<lceil>x\<rceil>" by (simp add: floor_le_ceiling)
  ultimately show ?thesis by (auto simp: round_half_even_def Let_def)
qed

lemma binade_eqI:
  assumes "0 < x" and "2 powr of_int e \<le> x" and "x < 2 powr of_int (e + 1)"
  shows "binade x = e"
proof -
  have a: "of_int e \<le> log 2 x" using assms(1,2) by (simp add: le_log_iff)
  have b: "log 2 x < of_int e + 1" using assms(1,3) by (simp add: log_less_iff)
  show ?thesis unfolding binade_def using a b assms(1) by (simp add: floor_eq_iff)
qed

lemma binade_le:
  assumes "0 < x" and "x < 2 powr of_int (e + 1)"
  shows "binade x \<le> e"
proof -
  have b: "log 2 x < of_int (e + 1)" using assms by (simp add: log_less_iff)
  have "\<lfloor>log 2 x\<rfloor> < e + 1" using b by (simp only: floor_less_iff)
  moreover have "\<bar>x\<bar> = x" using assms(1) by simp
  ultimately show ?thesis by (simp add: binade_def)
qed

lemma double_round_between:
  assumes "0 \<le> x" and "x < 2 ^ 53"
  shows "of_int \<lfloor>x\<rfloor> \<le> double_round x \<and> double_round x \<le> of_int \<lceil>x\<rceil>"
proof (cases "x = 0")
  case True
  then show ?thesis by (simp add: double_round_def)
next
  case False
  then have pos: "0 < x" using assms(1) by simp
  define e where "e = binade x"
  have "x < 2 powr of_int (52 + 1)" using assms(2) by (simp add: powr_realpow [symmetric])
  then have e52: "e \<le> 52" unfolding e_def by (rule binade_le [OF pos])
  define N :: int where "N = 2 ^ nat (52 - e)"
  define u :: real where "u = 2 powr of_int (e - 52)"
  have upos: "0 < u" by (simp add: u_def)
  have p: "2 powr of_int (52 - e) = (2::real) ^ nat (52 - e)"
    using e52 by (simp add: powr_realpow [symmetric])
  have "(2::real) powr of_int (52 - e) * 2 powr of_int (e - 52) = 1"
    by (simp add: powr_add [symmetric])
  then have Nu: "of_int N * u = 1"
    unfolding N_def u_def p by simp
  then have inv: "1 / u = of_int N" using upos by (simp add: field_simps)
  have "x / u = x * (1 / u)" by simp
  then have y: "x / u = x * of_int N" by (simp only: inv)
  have dr: "double_round x = of_int (round_half_even (x * of_int N)) * u"
    unfolding double_round_def e_def [symmetric] u_def [symmetric] y using False by simp
  have scale: "of_int (n * N) * u = of_int n" for n
  proof -
    have "of_int (n * N) * u = of_int n * (of_int N * u)" by simp
    then show ?thesis by (simp only: Nu mult_1_right)
  qed
  have Npos: "0 < N" by (simp add: N_def)
  have lo: "of_int \<lfloor>x\<rfloor> \<le> double_round x"
  proof -
    have "of_int (\<lfloor>x\<rfloor> * N) \<le> x * of_int N" using Npos by (simp add: mult_right_mono)
    then have "\<lfloor>x\<rfloor> * N \<le> \<lfloor>x * of_int N\<rfloor>" by (simp add: le_floor_iff)
    also have "\<dots> \<le> round_half_even (x * of_int N)" using round_half_even_bounds by blast
    finally have "of_int (\<lfloor>x\<rfloor> * N) * u \<le> of_int (round_half_even (x * of_int N)) * u"
      using upos by (simp only: mult_le_cancel_right_pos of_int_le_iff)
    then show ?thesis by (simp only: scale dr)
  qed
  have hi: "double_round x \<le> of_int \<lceil>x\<rceil>"
  proof -
    have "x * of_int N \<le> of_int (\<lceil>x\<rceil> * N)" using Npos by (simp add: mult_right_mono)
    then have "\<lceil>x * of_int N\<rceil> \<le> \<lceil>x\<rceil> * N" by (simp add: ceiling_le_iff)
    moreover have "round_half_even (x * of_int N) \<le> \<lceil>x * of_int N\<rceil>" using round_half_even_bounds by blast
    ultimately have "round_half_even (x * of_int N) \<le> \<lceil>x\<rceil> * N" by simp
    then have "of_int (round_half_even (x * of_int N)) * u \<le> of_int (\<lceil>x\<rceil> * N) * u"
      using upos by (simp only: mult_le_cancel_right_pos of_int_le_iff)
    then show ?thesis by (simp only: scale dr)
  qed
  show ?thesis using lo hi by simp
qed

lemma floor_double_round:
  assumes "0 \<le> x" and "x < 2 ^ 53"
  shows "\<lfloor>x\<rfloor> \<le> \<lfloor>double_round x\<rfloor> \<and> \<lfloor>double_round x\<rfloor> \<le> \<lfloor>x\<rfloor> + 1"
proof -
  note b = double_round_between [OF assms]
  have 1: "\<lfloor>x\<rfloor> \<le> \<lfloor>double_round x\<rfloor>" using b by (simp add: le_floor_iff)
  have "\<lfloor>double_round x\<rfloor> \<le> \<lceil>x\<rceil>" using b by (metis floor_mono floor_of_int)
  moreover have "\<lceil>x\<rceil> \<le> \<lfloor>x\<rfloor> + 1" by (simp add: ceiling_le_iff)
  ultimately show ?thesis using 1 by simp
qed

lemma js_06: "js_times (5404319552844595 / 2 ^ 53) 100 = 60"
proof -
  let ?x = "5404319552844595 / 2 ^ 53 * (100::real)"
  have b: "binade ?x = 5"
    by (rule binade_eqI) (simp_all add: powr_numeral)
  have u: "(2::real) powr of_int (5 - 52) = 1 / 2 ^ 47"
    by (simp add: powr_minus_divide powr_numeral) 
  have r: "round_half_even (?x / (1 / 2 ^ 47)) = 8444249301319680"
    by (simp add: round_half_even_def Let_def floor_eq_iff)
  show ?thesis
    unfolding js_times_def double_round_def b u r by simp
qed

text \<open>
  C4 (as amended). On a relocation to the start identifier \<open>c\<close>, with the book
  instance in place and the index answering the fraction \<open>f\<close> in [0,1] for \<open>c\<close>:
  the progress of the session becomes the floor of the product of \<open>f\<close> and 100 as
  JavaScript computes it, rounded to a double; it is \<open>\<lfloor>f * 100\<rfloor>\<close> or one more, and an
  integer in [0,100]. The current identifier becomes \<open>c\<close>, and \<open>updateBookProgress\<close>
  is called with both: the call is put in flight and the store is not yet written. When
  that call runs alone, on a store that holds the book and accepts the write, the stored
  record has that progress and that location.
\<close>

theorem progress_is_floor_of_rounded_product:
  assumes "bookRef s" and "percentageFromCfi (epub s) c = Some f" and "0 \<le> f" and "f \<le> 1"
  shows "progress_st (updateLocationState c s) = \<lfloor>js_times f 100\<rfloor>
     \<and> \<lfloor>f * 100\<rfloor> \<le> progress_st (updateLocationState c s)
     \<and> progress_st (updateLocationState c s) \<le> \<lfloor>f * 100\<rfloor> + 1
     \<and> 0 \<le> progress_st (updateLocationState c s)
     \<and> progress_st (updateLocationState c s) \<le> 100
     \<and> currentCfi (updateLocationState c s) = c
     \<and> trace (updateLocationState c s) =
         trace s @ [SetCurrentCfi c, SetProgress \<lfloor>js_times f 100\<rfloor>,
                    UpdateBookProgress (book_id (book s)) c \<lfloor>js_times f 100\<rfloor>]
     \<and> inflight (updateLocationState c s) =
         inflight s @ [Awaiting_get (Req_updateBookProgress (book_id (book s)) c \<lfloor>js_times f 100\<rfloor>)]
     \<and> db (updateLocationState c s) = db s
     \<and> db (db_complete (length (inflight s)) (updateLocationState c s)) =
         settle (db s) (updateBookProgress (book_id (book s)) c \<lfloor>js_times f 100\<rfloor> (db s))
     \<and> (books (db s) (book_id (book s)) = Some b \<and> book_id b = book_id (book s)
          \<and> \<not> put_rejects (db s) (b\<lparr>lastLocationCfi := c, progress := \<lfloor>js_times f 100\<rfloor>\<rparr>) \<longrightarrow>
         books (db (db_complete (length (inflight s)) (updateLocationState c s))) (book_id (book s))
           = Some (b\<lparr>lastLocationCfi := c, progress := \<lfloor>js_times f 100\<rfloor>\<rparr>))"
proof -
  let ?p = "\<lfloor>js_times f 100\<rfloor>"
  let ?s' = "updateLocationState c s"
  have x0: "0 \<le> f * 100" using assms(3) by simp
  have x1: "f * 100 < 2 ^ 53" using assms(4) by simp
  have x2: "f * 100 \<le> 100" using assms(4) by simp
  have p: "progress_st ?s' = ?p"
    using assms(1,2)
    by (simp add: updateLocationState_def call_updateBookProgress_def setter_defs to_number_def Let_def)
  have cc: "currentCfi ?s' = c"
    using assms(1)
    by (simp add: updateLocationState_def call_updateBookProgress_def setter_defs Let_def)
  have tr: "trace ?s' = trace s @ [SetCurrentCfi c, SetProgress ?p,
                    UpdateBookProgress (book_id (book s)) c ?p]"
    using assms(1,2)
    by (simp add: updateLocationState_def call_updateBookProgress_def setter_defs to_number_def Let_def)
  have i: "inflight ?s' = inflight s @ [Awaiting_get (Req_updateBookProgress (book_id (book s)) c ?p)]"
    using assms(1,2)
    by (simp add: updateLocationState_def call_updateBookProgress_def setter_defs to_number_def Let_def)
  have d: "db ?s' = db s"
    using assms(1)
    by (simp add: updateLocationState_def call_updateBookProgress_def setter_defs Let_def)
  have "db (db_complete (length (inflight s)) ?s') =
          settle (db ?s') (run_alone (Req_updateBookProgress (book_id (book s)) c ?p) (db ?s'))"
    by (rule db_complete_last(1) [OF i])
  then have dc: "db (db_complete (length (inflight s)) ?s') =
         settle (db s) (updateBookProgress (book_id (book s)) c ?p (db s))"
    by (simp add: d run_alone_eq)
  have st: "books (db (db_complete (length (inflight s)) ?s')) (book_id (book s))
           = Some (b\<lparr>lastLocationCfi := c, progress := ?p\<rparr>)"
    if "books (db s) (book_id (book s)) = Some b" and "book_id b = book_id (book s)"
      and "\<not> put_rejects (db s) (b\<lparr>lastLocationCfi := c, progress := ?p\<rparr>)"
    using that by (simp add: dc updateBookProgress_def db_get_def db_put_def settle_def)
  have fl: "\<lfloor>f * 100\<rfloor> \<le> ?p \<and> ?p \<le> \<lfloor>f * 100\<rfloor> + 1"
    using floor_double_round [OF x0 x1] by (simp add: js_times_def)
  have lo: "0 \<le> ?p"
  proof -
    have "0 \<le> \<lfloor>f * 100\<rfloor>" using x0 by simp
    then show ?thesis using fl by linarith
  qed
  have hi: "?p \<le> 100"
  proof -
    have "double_round (f * 100) \<le> of_int \<lceil>f * 100\<rceil>"
      using double_round_between [OF x0 x1] by simp
    moreover have "\<lceil>f * 100\<rceil> \<le> 100" using x2 by (simp add: ceiling_le_iff)
    ultimately have "double_round (f * 100) \<le> 100" by linarith
    then have "\<lfloor>double_round (f * 100)\<rfloor> \<le> \<lfloor>100::real\<rfloor>" by (rule floor_mono)
    then show ?thesis by (simp add: js_times_def)
  qed
  show ?thesis using p cc tr i d dc st fl lo hi by simp
qed

lemma js_times_3_8: "js_times (3 / 8) 100 = 75 / 2"
proof -
  let ?x = "3 / 8 * (100::real)"
  have b: "binade ?x = 5"
    by (rule binade_eqI) (simp_all add: powr_numeral)
  have u: "(2::real) powr of_int (5 - 52) = 1 / 2 ^ 47"
    by (simp add: powr_minus_divide powr_numeral)
  have r: "round_half_even (?x / (1 / 2 ^ 47)) = 5277655813324800"
    by (simp add: round_half_even_def Let_def floor_eq_iff)
  show ?thesis
    unfolding js_times_def double_round_def b u r by simp
qed

theorem progress_is_floor_of_rounded_product_witness:
  "progress_st (updateLocationState ''epubcfi(/6/6!/4/2/1:0)'' ready1) = 37
   \<and> currentCfi (updateLocationState ''epubcfi(/6/6!/4/2/1:0)'' ready1) = ''epubcfi(/6/6!/4/2/1:0)''
   \<and> inflight (updateLocationState ''epubcfi(/6/6!/4/2/1:0)'' ready1)
       = [Awaiting_get (Req_updateBookProgress ''b1'' ''epubcfi(/6/6!/4/2/1:0)'' 37)]
   \<and> books (db (updateLocationState ''epubcfi(/6/6!/4/2/1:0)'' ready1)) ''b1'' = Some book1
   \<and> books (db (db_complete 0 (updateLocationState ''epubcfi(/6/6!/4/2/1:0)'' ready1))) ''b1''
       = Some (book1\<lparr>lastLocationCfi := ''epubcfi(/6/6!/4/2/1:0)'', progress := 37\<rparr>)"
proof -
  have a: "bookRef ready1" by (simp add: ready1_facts)
  have b: "percentageFromCfi (epub ready1) ''epubcfi(/6/6!/4/2/1:0)'' = Some (3 / 8)"
    by (simp add: ready1_facts engine1_def)
  have c: "(0::real) \<le> 3 / 8" and d: "(3 / 8 :: real) \<le> 1" by simp_all
  have f: "\<lfloor>js_times (3 / 8) 100\<rfloor> = 37" by (simp add: js_times_3_8 floor_eq_iff)
  have s: "books (db ready1) ''b1'' = Some book1 \<and> book_id book1 = ''b1''
          \<and> \<not> put_rejects (db ready1) (book1\<lparr>lastLocationCfi := ''epubcfi(/6/6!/4/2/1:0)'', progress := 37\<rparr>)"
    by (simp add: ready1_facts db1_def) (simp add: book1_def)
  have k: "book_id (book ready1) = ''b1''" by (simp add: ready1_facts) (simp add: book1_def)
  have n: "inflight ready1 = []" "length ([] :: db_op list) = 0" by (simp_all add: ready1_facts)
  note w = progress_is_floor_of_rounded_product
    [where s = ready1 and c = "''epubcfi(/6/6!/4/2/1:0)''" and f = "3 / 8" and b = book1,
     OF a b c d, unfolded f k n append_Nil]
  have 1: "progress_st (updateLocationState ''epubcfi(/6/6!/4/2/1:0)'' ready1) = 37"
    using w by blast
  have 2: "currentCfi (updateLocationState ''epubcfi(/6/6!/4/2/1:0)'' ready1) = ''epubcfi(/6/6!/4/2/1:0)''"
    using w by blast
  have 3: "inflight (updateLocationState ''epubcfi(/6/6!/4/2/1:0)'' ready1)
       = [Awaiting_get (Req_updateBookProgress ''b1'' ''epubcfi(/6/6!/4/2/1:0)'' 37)]"
    using w by blast
  have "db (updateLocationState ''epubcfi(/6/6!/4/2/1:0)'' ready1) = db ready1"
    using w by blast
  then have 4: "books (db (updateLocationState ''epubcfi(/6/6!/4/2/1:0)'' ready1)) ''b1'' = Some book1"
    using s by simp
  have 5: "books (db (db_complete 0 (updateLocationState ''epubcfi(/6/6!/4/2/1:0)'' ready1))) ''b1''
       = Some (book1\<lparr>lastLocationCfi := ''epubcfi(/6/6!/4/2/1:0)'', progress := 37\<rparr>)"
    using w s by blast
  show ?thesis using 1 2 3 4 5 by blast
qed

text \<open>
  C4 as the specification words it, \<open>floor(f * 100)\<close>, fails for the double nearest to
  0.6, which the index answers for the third of five locations: the fraction is below
  0.6 and the floor of the exact product is 59, but the product rounds to the double 60
  and the progress set, and passed on to be stored, is 60.
\<close>

theorem progress_of_06_counterexample:
  "percentageFromCfi (epub ready_06) ''epubcfi(/6/6!/4/2/1:0)'' = Some (5404319552844595 / 2 ^ 53)
   \<and> \<lfloor>5404319552844595 / 2 ^ 53 * (100::real)\<rfloor> = 59
   \<and> progress_st (updateLocationState ''epubcfi(/6/6!/4/2/1:0)'' ready_06) = 60
   \<and> inflight (updateLocationState ''epubcfi(/6/6!/4/2/1:0)'' ready_06)
       = [Awaiting_get (Req_updateBookProgress ''b1'' ''epubcfi(/6/6!/4/2/1:0)'' 60)]"
proof -
  have e: "percentageFromCfi (epub ready_06) ''epubcfi(/6/6!/4/2/1:0)'' = Some (5404319552844595 / 2 ^ 53)"
    by (simp add: ready_06_def)
  have f: "bookRef ready_06" "inflight ready_06 = []" "book_id (book ready_06) = ''b1''"
    by (simp_all add: ready_06_def ready1_facts book1_def)
  have x: "\<lfloor>5404319552844595 / 2 ^ 53 * (100::real)\<rfloor> = 59" by (simp add: floor_eq_iff)
  have js: "js_times (5404319552844595 / 9007199254740992) 100 = 60" using js_06 by simp
  have p: "progress_st (updateLocationState ''epubcfi(/6/6!/4/2/1:0)'' ready_06) = 60"
    using e f(1)
    by (simp add: updateLocationState_def call_updateBookProgress_def setter_defs to_number_def Let_def js)
  have i: "inflight (updateLocationState ''epubcfi(/6/6!/4/2/1:0)'' ready_06)
       = [Awaiting_get (Req_updateBookProgress ''b1'' ''epubcfi(/6/6!/4/2/1:0)'' 60)]"
    using e f
    by (simp add: updateLocationState_def call_updateBookProgress_def setter_defs to_number_def Let_def js)
  show ?thesis using e x p i by blast
qed

section \<open>Claims on selection, initialization and the mark-click\<close>

lemma dropWhile_empty_iff: "dropWhile P xs = [] \<longleftrightarrow> (\<forall>x\<in>set xs. P x)"
  by (induction xs) auto

lemma trim_empty_iff: "trim s = [] \<longleftrightarrow> (\<forall>c\<in>set s. is_js_space c)"
proof -
  have "trim s = [] \<longleftrightarrow> dropWhile is_js_space (rev (dropWhile is_js_space s)) = []"
    by (simp add: trim_def)
  also have "\<dots> \<longleftrightarrow> (\<forall>c\<in>set (dropWhile is_js_space s). is_js_space c)"
    by (simp add: dropWhile_empty_iff)
  also have "\<dots> \<longleftrightarrow> (\<forall>c\<in>set s. is_js_space c)"
  proof
    assume a: "\<forall>c\<in>set (dropWhile is_js_space s). is_js_space c"
    show "\<forall>c\<in>set s. is_js_space c"
    proof (cases "dropWhile is_js_space s")
      case Nil
      then show ?thesis by (simp add: dropWhile_empty_iff)
    next
      case (Cons x xs)
      then have "\<not> is_js_space x" using hd_dropWhile [of is_js_space s] by simp
      moreover have "x \<in> set (dropWhile is_js_space s)" using Cons by simp
      ultimately show ?thesis using a by blast
    qed
  next
    assume "\<forall>c\<in>set s. is_js_space c"
    then show "\<forall>c\<in>set (dropWhile is_js_space s). is_js_space c"
      using set_dropWhileD by fastforce
  qed
  finally show ?thesis .
qed

lemma mouseup_ignored:
  "mouseup None s = s"
  "isCollapsed sl \<Longrightarrow> mouseup (Some sl) s = s"
  "rangeCount sl = 0 \<Longrightarrow> mouseup (Some sl) s = s"
  "trim (toString sl) = [] \<Longrightarrow> mouseup (Some sl) s = s"
  "\<not> isHighlightModeRef s \<Longrightarrow> mouseup sel s = s"
  "range_cfi sl = [] \<Longrightarrow> mouseup (Some sl) s = s"
  by (simp_all add: mouseup_def Let_def)

lemma mouseup_creates:
  assumes "isHighlightModeRef s" and "\<not> isCollapsed sl" and "0 < rangeCount sl"
    and "trim (toString sl) \<noteq> []" and "range_cfi sl \<noteq> []"
  shows "mouseup (Some sl) s = create_highlight (range_cfi sl) (trim (toString sl)) s"
  using assms by (simp add: mouseup_def Let_def)

lemma create_highlight_result:
  assumes "\<not> add_throws (epub s) c"
  shows "highlights_st (create_highlight c txt s) = highlights_st s @ [newHighlight c txt (clock s)]"
    and "overlays (epub (create_highlight c txt s)) = (overlays (epub s))((c, ''highlight'') \<mapsto> (''hl'', hl_style))"
    and "marks (epub (create_highlight c txt s)) = marks (epub s) @ [(c, ''highlight'')]"
    and "trace (create_highlight c txt s) =
          trace s @ [SetTimeout ResetJustCreated 300,
                     AnnotationsAdd ''highlight'' c ''hl'' hl_style,
                     RemoveAllRanges,
                     SetHighlights (highlights_st s @ [newHighlight c txt (clock s)]),
                     AddBookHighlight (book_id (book s)) (newHighlight c txt (clock s))]"
    and "inflight (create_highlight c txt s) =
          inflight s @ [Awaiting_get (Req_addBookHighlight (book_id (book s)) (newHighlight c txt (clock s)))]"
    and "db (create_highlight c txt s) = db s"
  using assms
  by (simp_all add: create_highlight_def overlay_call_defs setter_defs call_addBookHighlight_def Let_def)

lemma create_highlight_thrown:
  assumes "add_throws (epub s) c"
  shows "highlights_st (create_highlight c txt s) = highlights_st s"
    and "epub (create_highlight c txt s) = epub s"
    and "trace (create_highlight c txt s) =
          trace s @ [SetTimeout ResetJustCreated 300, AnnotationsAdd ''highlight'' c ''hl'' hl_style]"
    and "inflight (create_highlight c txt s) = inflight s"
    and "db (create_highlight c txt s) = db s"
  using assms
  by (simp_all add: create_highlight_def overlay_call_defs setter_defs call_addBookHighlight_def Let_def)

lemma create_highlight_flag:
  "justCreatedHighlightRef (create_highlight c txt s)"
  "timers (create_highlight c txt s) = timers s @ [(clock s + 300, ResetJustCreated)]"
  "highlightPopup (create_highlight c txt s) = highlightPopup s"
  "clock (create_highlight c txt s) = clock s"
  by (simp_all add: create_highlight_def overlay_call_defs setter_defs call_addBookHighlight_def Let_def)

lemma addBookHighlight_stored:
  assumes "books d k = Some b" and "book_id b = k"
    and "\<not> put_rejects d (b\<lparr>highlights := Some ((case highlights b of None \<Rightarrow> [] | Some l \<Rightarrow> l) @ [h])\<rparr>)"
  shows "stored_highlights k (settle d (addBookHighlight k h d))
           = Some ((case highlights b of None \<Rightarrow> [] | Some l \<Rightarrow> l) @ [h])"
  using assms
  by (simp add: addBookHighlight_def db_get_def db_put_def settle_def stored_highlights_def Let_def)

text \<open>
  C5 (as amended). The mouseup listener leaves the whole session as it was, with no call
  on the engine or the store, when the selection is null, when it is collapsed, when
  its text consists of white space only (it is empty after \<open>trim\<close>), and when the
  engine's CFI constructor gives the empty identifier. In highlight mode, for a
  selection that is not collapsed, has a range, has text other than white space and
  gets a non-empty identifier: if \<open>annotations.add\<close> throws for the identifier, no
  highlight is created, the marks are as they were and nothing is stored or put in
  flight; if it does not throw, exactly one highlight is appended to the highlights of
  the session, with that identifier, the trimmed text and the time of the event; one
  mark is drawn and registered under that identifier; and one call of
  \<open>addBookHighlight\<close> with the same highlight is put in flight, the store being not
  yet written. When that call runs alone, on a store that holds the book and accepts
  the write, the stored collection is the old one with that highlight appended.
\<close>

theorem selection_end_creates_one_highlight:
  "mouseup None s = s
   \<and> (isCollapsed sl \<longrightarrow> mouseup (Some sl) s = s)
   \<and> ((\<forall>c\<in>set (toString sl). is_js_space c) \<longrightarrow> mouseup (Some sl) s = s)
   \<and> (range_cfi sl = [] \<longrightarrow> mouseup (Some sl) s = s)
   \<and> (isHighlightModeRef s \<and> \<not> isCollapsed sl \<and> 0 < rangeCount sl
        \<and> \<not> (\<forall>c\<in>set (toString sl). is_js_space c) \<and> range_cfi sl \<noteq> [] \<longrightarrow>
       (add_throws (epub s) (range_cfi sl) \<longrightarrow>
          highlights_st (mouseup (Some sl) s) = highlights_st s
          \<and> epub (mouseup (Some sl) s) = epub s
          \<and> inflight (mouseup (Some sl) s) = inflight s
          \<and> db (mouseup (Some sl) s) = db s)
       \<and> (\<not> add_throws (epub s) (range_cfi sl) \<longrightarrow>
          highlights_st (mouseup (Some sl) s)
            = highlights_st s @ [newHighlight (range_cfi sl) (trim (toString sl)) (clock s)]
          \<and> marks (epub (mouseup (Some sl) s)) = marks (epub s) @ [(range_cfi sl, ''highlight'')]
          \<and> overlays (epub (mouseup (Some sl) s))
            = (overlays (epub s))((range_cfi sl, ''highlight'') \<mapsto> (''hl'', hl_style))
          \<and> trace (mouseup (Some sl) s) =
             trace s @ [SetTimeout ResetJustCreated 300,
                        AnnotationsAdd ''highlight'' (range_cfi sl) ''hl'' hl_style,
                        RemoveAllRanges,
                        SetHighlights (highlights_st s @ [newHighlight (range_cfi sl) (trim (toString sl)) (clock s)]),
                        AddBookHighlight (book_id (book s)) (newHighlight (range_cfi sl) (trim (toString sl)) (clock s))]
          \<and> inflight (mouseup (Some sl) s) =
             inflight s @ [Awaiting_get (Req_addBookHighlight (book_id (book s))
                                           (newHighlight (range_cfi sl) (trim (toString sl)) (clock s)))]
          \<and> db (mouseup (Some sl) s) = db s
          \<and> db (db_complete (length (inflight s)) (mouseup (Some sl) s)) =
             settle (db s) (addBookHighlight (book_id (book s))
                              (newHighlight (range_cfi sl) (trim (toString sl)) (clock s)) (db s))
          \<and> (books (db s) (book_id (book s)) = Some b \<and> book_id b = book_id (book s)
               \<and> \<not> put_rejects (db s)
                    (b\<lparr>highlights := Some ((case highlights b of None \<Rightarrow> [] | Some l \<Rightarrow> l)
                          @ [newHighlight (range_cfi sl) (trim (toString sl)) (clock s)])\<rparr>) \<longrightarrow>
              stored_highlights (book_id (book s)) (db (db_complete (length (inflight s)) (mouseup (Some sl) s)))
                = Some ((case highlights b of None \<Rightarrow> [] | Some l \<Rightarrow> l)
                          @ [newHighlight (range_cfi sl) (trim (toString sl)) (clock s)]))))"
proof -
  let ?h = "newHighlight (range_cfi sl) (trim (toString sl)) (clock s)"
  let ?s' = "mouseup (Some sl) s"
  have 3: "(\<forall>c\<in>set (toString sl). is_js_space c) \<longrightarrow> ?s' = s"
    using mouseup_ignored(4) [of sl s] by (simp add: trim_empty_iff)
  have 4: "range_cfi sl = [] \<longrightarrow> ?s' = s"
    using mouseup_ignored(6) [of sl s] by simp
  have 5: "(add_throws (epub s) (range_cfi sl) \<longrightarrow>
          highlights_st ?s' = highlights_st s
          \<and> epub ?s' = epub s
          \<and> inflight ?s' = inflight s
          \<and> db ?s' = db s)
       \<and> (\<not> add_throws (epub s) (range_cfi sl) \<longrightarrow>
          highlights_st ?s' = highlights_st s @ [?h]
          \<and> marks (epub ?s') = marks (epub s) @ [(range_cfi sl, ''highlight'')]
          \<and> overlays (epub ?s')
            = (overlays (epub s))((range_cfi sl, ''highlight'') \<mapsto> (''hl'', hl_style))
          \<and> trace ?s' =
             trace s @ [SetTimeout ResetJustCreated 300,
                        AnnotationsAdd ''highlight'' (range_cfi sl) ''hl'' hl_style,
                        RemoveAllRanges,
                        SetHighlights (highlights_st s @ [?h]),
                        AddBookHighlight (book_id (book s)) ?h]
          \<and> inflight ?s' = inflight s @ [Awaiting_get (Req_addBookHighlight (book_id (book s)) ?h)]
          \<and> db ?s' = db s
          \<and> db (db_complete (length (inflight s)) ?s') =
             settle (db s) (addBookHighlight (book_id (book s)) ?h (db s))
          \<and> (books (db s) (book_id (book s)) = Some b \<and> book_id b = book_id (book s)
               \<and> \<not> put_rejects (db s)
                    (b\<lparr>highlights := Some ((case highlights b of None \<Rightarrow> [] | Some l \<Rightarrow> l) @ [?h])\<rparr>) \<longrightarrow>
              stored_highlights (book_id (book s)) (db (db_complete (length (inflight s)) ?s'))
                = Some ((case highlights b of None \<Rightarrow> [] | Some l \<Rightarrow> l) @ [?h])))"
    if h: "isHighlightModeRef s" "\<not> isCollapsed sl" "0 < rangeCount sl"
        "\<not> (\<forall>c\<in>set (toString sl). is_js_space c)" "range_cfi sl \<noteq> []"
  proof -
    have t: "trim (toString sl) \<noteq> []" using h(4) by (simp add: trim_empty_iff)
    note m = mouseup_creates [OF h(1,2,3) t h(5)]
    have thrown: "highlights_st ?s' = highlights_st s \<and> epub ?s' = epub s
          \<and> inflight ?s' = inflight s \<and> db ?s' = db s"
      if a: "add_throws (epub s) (range_cfi sl)"
      using create_highlight_thrown [OF a, of "trim (toString sl)"] by (simp add: m)
    have made: "highlights_st ?s' = highlights_st s @ [?h]
          \<and> marks (epub ?s') = marks (epub s) @ [(range_cfi sl, ''highlight'')]
          \<and> overlays (epub ?s')
            = (overlays (epub s))((range_cfi sl, ''highlight'') \<mapsto> (''hl'', hl_style))
          \<and> trace ?s' =
             trace s @ [SetTimeout ResetJustCreated 300,
                        AnnotationsAdd ''highlight'' (range_cfi sl) ''hl'' hl_style,
                        RemoveAllRanges,
                        SetHighlights (highlights_st s @ [?h]),
                        AddBookHighlight (book_id (book s)) ?h]
          \<and> inflight ?s' = inflight s @ [Awaiting_get (Req_addBookHighlight (book_id (book s)) ?h)]
          \<and> db ?s' = db s
          \<and> db (db_complete (length (inflight s)) ?s') =
             settle (db s) (addBookHighlight (book_id (book s)) ?h (db s))
          \<and> (books (db s) (book_id (book s)) = Some b \<and> book_id b = book_id (book s)
               \<and> \<not> put_rejects (db s)
                    (b\<lparr>highlights := Some ((case highlights b of None \<Rightarrow> [] | Some l \<Rightarrow> l) @ [?h])\<rparr>) \<longrightarrow>
              stored_highlights (book_id (book s)) (db (db_complete (length (inflight s)) ?s'))
                = Some ((case highlights b of None \<Rightarrow> [] | Some l \<Rightarrow> l) @ [?h]))"
      if a: "\<not> add_throws (epub s) (range_cfi sl)"
    proof -
      note c = create_highlight_result [OF a, of "trim (toString sl)"]
      have i: "inflight ?s' = inflight s @ [Awaiting_get (Req_addBookHighlight (book_id (book s)) ?h)]"
        using c(5) by (simp add: m)
      have d: "db ?s' = db s" using c(6) by (simp add: m)
      have "db (db_complete (length (inflight s)) ?s') =
              settle (db ?s') (run_alone (Req_addBookHighlight (book_id (book s)) ?h) (db ?s'))"
        by (rule db_complete_last(1) [OF i])
      then have dc: "db (db_complete (length (inflight s)) ?s') =
             settle (db s) (addBookHighlight (book_id (book s)) ?h (db s))"
        by (simp add: d run_alone_eq)
      have st: "stored_highlights (book_id (book s)) (db (db_complete (length (inflight s)) ?s'))
                = Some ((case highlights b of None \<Rightarrow> [] | Some l \<Rightarrow> l) @ [?h])"
        if "books (db s) (book_id (book s)) = Some b" and "book_id b = book_id (book s)"
          and "\<not> put_rejects (db s)
                    (b\<lparr>highlights := Some ((case highlights b of None \<Rightarrow> [] | Some l \<Rightarrow> l) @ [?h])\<rparr>)"
        unfolding dc using that by (intro addBookHighlight_stored) simp_all
      have c1: "highlights_st ?s' = highlights_st s @ [?h]" using c(1) by (simp add: m)
      have c2: "overlays (epub ?s')
            = (overlays (epub s))((range_cfi sl, ''highlight'') \<mapsto> (''hl'', hl_style))"
        using c(2) by (simp add: m)
      have c3: "marks (epub ?s') = marks (epub s) @ [(range_cfi sl, ''highlight'')]"
        using c(3) by (simp add: m)
      have c4: "trace ?s' =
             trace s @ [SetTimeout ResetJustCreated 300,
                        AnnotationsAdd ''highlight'' (range_cfi sl) ''hl'' hl_style,
                        RemoveAllRanges,
                        SetHighlights (highlights_st s @ [?h]),
                        AddBookHighlight (book_id (book s)) ?h]"
        using c(4) by (simp add: m)
      show ?thesis using c1 c2 c3 c4 i d dc st by blast
    qed
    show ?thesis using thrown made by blast
  qed
  show ?thesis using mouseup_ignored(1,2) 3 4 5 by blast
qed

lemma reading_facts:
  "isHighlightModeRef (toggleHighlightMode ready1)"
  "highlights_st (toggleHighlightMode ready1) = [hA, hB]"
  "clock (toggleHighlightMode ready1) = 5000"
  "epub (toggleHighlightMode ready1) = engine1"
  "db (toggleHighlightMode ready1) = db1"
  "book (toggleHighlightMode ready1) = book1"
  "timers (toggleHighlightMode ready1) = []"
  "justCreatedHighlightRef (toggleHighlightMode ready1) = False"
  "highlightPopup (toggleHighlightMode ready1) = None"
  "containerRef (toggleHighlightMode ready1) = Some 800"
  "inflight (toggleHighlightMode ready1) = []"
  by (simp_all add: toggleHighlightMode_def ready1_facts)

theorem selection_end_creates_one_highlight_witness:
  "mouseup None (toggleHighlightMode ready1) = toggleHighlightMode ready1
   \<and> mouseup (Some sel_blank) (toggleHighlightMode ready1) = toggleHighlightMode ready1
   \<and> mouseup (Some sel_noid) (toggleHighlightMode ready1) = toggleHighlightMode ready1
   \<and> highlights_st (mouseup (Some sel_hA) (toggleHighlightMode ready_stale)) = [hA, hB]
   \<and> highlights_st (mouseup (Some sel_word) (toggleHighlightMode ready1))
        = [hA, hB, \<lparr>cfiRange = ''epubcfi(/6/8!/4/2,/1:1,/1:3)'', color = ''#ffff00'',
                    text_h = Some [72, 105], created = 5000\<rparr>]
   \<and> marks (epub (mouseup (Some sel_word) (toggleHighlightMode ready1)))
        = [(''epubcfi(/6/8!/4/2,/1:1,/1:3)'', ''highlight'')]
   \<and> stored_highlights ''b1'' (db (mouseup (Some sel_word) (toggleHighlightMode ready1))) = Some [hA, hB]
   \<and> stored_highlights ''b1'' (db (db_complete 0 (mouseup (Some sel_word) (toggleHighlightMode ready1))))
        = Some [hA, hB, \<lparr>cfiRange = ''epubcfi(/6/8!/4/2,/1:1,/1:3)'', color = ''#ffff00'',
                    text_h = Some [72, 105], created = 5000\<rparr>]"
proof -
  let ?s = "toggleHighlightMode ready1"
  let ?t = "toggleHighlightMode ready_stale"
  let ?h = "\<lparr>cfiRange = ''epubcfi(/6/8!/4/2,/1:1,/1:3)'', color = ''#ffff00'',
                    text_h = Some [72, 105], created = 5000\<rparr>"
  note wb = selection_end_creates_one_highlight [of ?s sel_blank book1]
  note wn = selection_end_creates_one_highlight [of ?s sel_noid book1]
  note wa = selection_end_creates_one_highlight [of ?t sel_hA book1]
  note ww = selection_end_creates_one_highlight [of ?s sel_word book1]
  have blank: "\<forall>c\<in>set (toString sel_blank). is_js_space c"
    by (simp add: sel_blank_def is_js_space_def)
  have noid: "range_cfi sel_noid = []" by (simp add: sel_noid_def)
  have tr: "trim (toString sel_word) = [72, 105]"
    by (simp add: sel_word_def trim_def is_js_space_def)
  have rc: "range_cfi sel_word = ''epubcfi(/6/8!/4/2,/1:1,/1:3)''" by (simp add: sel_word_def)
  have nh: "newHighlight (range_cfi sel_word) (trim (toString sel_word)) 5000 = ?h"
    by (simp add: tr newHighlight_def) (simp add: sel_word_def)
  have pre: "isHighlightModeRef ?s \<and> \<not> isCollapsed sel_word \<and> 0 < rangeCount sel_word
        \<and> \<not> (\<forall>c\<in>set (toString sel_word). is_js_space c) \<and> range_cfi sel_word \<noteq> []"
    by (simp add: reading_facts) (simp add: sel_word_def is_js_space_def)
  have ok: "\<not> add_throws (epub ?s) (range_cfi sel_word)"
    by (simp add: reading_facts engine1_def)
  have pre_a: "isHighlightModeRef ?t \<and> \<not> isCollapsed sel_hA \<and> 0 < rangeCount sel_hA
        \<and> \<not> (\<forall>c\<in>set (toString sel_hA). is_js_space c) \<and> range_cfi sel_hA \<noteq> []"
    by (simp add: toggleHighlightMode_def ready_stale_facts)
       (simp add: sel_hA_def sel_word_def is_js_space_def hA_def)
  have thr: "add_throws (epub ?t) (range_cfi sel_hA)"
    by (simp add: toggleHighlightMode_def ready_stale_facts engine_stale_def sel_hA_def)
  have ht: "highlights_st ?t = [hA, hB]" by (simp add: toggleHighlightMode_def ready_stale_facts)
  have st: "books (db ?s) (book_id (book ?s)) = Some book1 \<and> book_id book1 = book_id (book ?s)
            \<and> \<not> put_rejects (db ?s)
                 (book1\<lparr>highlights := Some ((case highlights book1 of None \<Rightarrow> [] | Some l \<Rightarrow> l)
                       @ [newHighlight (range_cfi sel_word) (trim (toString sel_word)) (clock ?s)])\<rparr>)"
    by (simp add: reading_facts db1_def) (simp add: book1_def)
  have k: "book_id book1 = ''b1''" by (simp add: book1_def)
  have hl: "(case highlights book1 of None \<Rightarrow> [] | Some l \<Rightarrow> l) = [hA, hB]" by (simp add: book1_def)
  have sh: "stored_highlights ''b1'' db1 = Some [hA, hB]"
    by (simp add: stored_highlights_def db1_def book1_def)
  have 1: "mouseup None ?s = ?s" using wb by blast
  have 2: "mouseup (Some sel_blank) ?s = ?s" using wb blank by blast
  have 3: "mouseup (Some sel_noid) ?s = ?s" using wn noid by blast
  have 4: "highlights_st (mouseup (Some sel_hA) ?t) = highlights_st ?t"
    using wa pre_a thr by blast
  have 5: "highlights_st (mouseup (Some sel_word) ?s)
             = highlights_st ?s @ [newHighlight (range_cfi sel_word) (trim (toString sel_word)) (clock ?s)]"
    using ww pre ok by blast
  have 6: "marks (epub (mouseup (Some sel_word) ?s)) = marks (epub ?s) @ [(range_cfi sel_word, ''highlight'')]"
    using ww pre ok by blast
  have 7: "db (mouseup (Some sel_word) ?s) = db ?s"
    using ww pre ok by blast
  have 8: "stored_highlights (book_id (book ?s)) (db (db_complete (length (inflight ?s)) (mouseup (Some sel_word) ?s)))
             = Some ((case highlights book1 of None \<Rightarrow> [] | Some l \<Rightarrow> l)
                       @ [newHighlight (range_cfi sel_word) (trim (toString sel_word)) (clock ?s)])"
    using ww pre ok st by blast
  have mk: "marks (epub (mouseup (Some sel_word) ?s)) = [(''epubcfi(/6/8!/4/2,/1:1,/1:3)'', ''highlight'')]"
    using 6 by (simp add: reading_facts engine1_def rc)
  show ?thesis using 1 2 3 4 5 mk 7 8 by (simp add: nh k hl reading_facts ht sh)
qed

lemma created_once_facts:
  "clock created_once = 5000" "timers created_once = [(5300, ResetJustCreated)]"
  "justCreatedHighlightRef created_once" "isHighlightModeRef created_once"
  "highlights_st created_once = [hA, hB, newHighlight (range_cfi sel_word) [72, 105] 5000]"
  "inflight created_once = [Awaiting_get (Req_addBookHighlight ''b1'' (newHighlight (range_cfi sel_word) [72, 105] 5000))]"
  "db created_once = db1" "book created_once = book1" "highlightPopup created_once = None"
  "containerRef created_once = Some 800" "add_throws (epub created_once) = (\<lambda>c. False)"
proof -
  have t: "trim (toString sel_word) = [72, 105]" by (simp add: sel_word_def trim_def is_js_space_def)
  have c: "created_once = create_highlight (range_cfi sel_word) [72, 105] (toggleHighlightMode ready1)"
    unfolding created_once_def
    using mouseup_creates [of "toggleHighlightMode ready1" sel_word]
    by (simp add: reading_facts t) (simp add: sel_word_def)
  have ok: "\<not> add_throws (epub (toggleHighlightMode ready1)) (range_cfi sel_word)"
    by (simp add: reading_facts engine1_def)
  note r = create_highlight_result [OF ok, of "[72, 105]"]
  note f = create_highlight_flag [of "range_cfi sel_word" "[72, 105]" "toggleHighlightMode ready1"]
  show "clock created_once = 5000" using f by (simp add: c reading_facts)
  show "timers created_once = [(5300, ResetJustCreated)]" using f by (simp add: c reading_facts)
  show "justCreatedHighlightRef created_once" using f by (simp add: c)
  show "highlights_st created_once = [hA, hB, newHighlight (range_cfi sel_word) [72, 105] 5000]"
    using r by (simp add: c reading_facts)
  show "inflight created_once = [Awaiting_get (Req_addBookHighlight ''b1'' (newHighlight (range_cfi sel_word) [72, 105] 5000))]"
    using r by (simp add: c reading_facts) (simp add: book1_def)
  show "db created_once = db1" using r by (simp add: c reading_facts)
  show "highlightPopup created_once = None" using f by (simp add: c reading_facts)
  show "isHighlightModeRef created_once"
    using ok
    by (simp add: c create_highlight_def overlay_call_defs setter_defs call_addBookHighlight_def Let_def
        reading_facts)
  show "book created_once = book1"
    using ok
    by (simp add: c create_highlight_def overlay_call_defs setter_defs call_addBookHighlight_def Let_def
        reading_facts)
  show "containerRef created_once = Some 800"
    using ok
    by (simp add: c create_highlight_def overlay_call_defs setter_defs call_addBookHighlight_def Let_def
        reading_facts)
  show "add_throws (epub created_once) = (\<lambda>c. False)"
    using ok
    by (simp add: c create_highlight_def overlay_call_defs setter_defs call_addBookHighlight_def Let_def
        reading_facts engine1_def)
qed

lemma at_5200_facts:
  "advance 5200 created_once = created_once\<lparr>clock := 5200\<rparr>"
  by (simp add: advance_def Let_def created_once_facts)

lemma created_twice_facts:
  "clock created_twice = 5200"
  "timers created_twice = [(5300, ResetJustCreated), (5500, ResetJustCreated)]"
  "justCreatedHighlightRef created_twice"
  "highlights_st created_twice = [hA, hB, newHighlight (range_cfi sel_word) [72, 105] 5000,
                                  newHighlight (range_cfi sel_next) [110, 101, 120, 116] 5200]"
  "inflight created_twice =
     [Awaiting_get (Req_addBookHighlight ''b1'' (newHighlight (range_cfi sel_word) [72, 105] 5000)),
      Awaiting_get (Req_addBookHighlight ''b1'' (newHighlight (range_cfi sel_next) [110, 101, 120, 116] 5200))]"
  "db created_twice = db1" "highlightPopup created_twice = None" "containerRef created_twice = Some 800"
proof -
  let ?s = "created_once\<lparr>clock := 5200\<rparr>"
  have t: "trim (toString sel_next) = [110, 101, 120, 116]"
    by (simp add: sel_next_def trim_def is_js_space_def)
  have c: "created_twice = create_highlight (range_cfi sel_next) [110, 101, 120, 116] ?s"
    unfolding created_twice_def at_5200_facts
    using mouseup_creates [of ?s sel_next]
    by (simp add: created_once_facts t) (simp add: sel_next_def)
  have ok: "\<not> add_throws (epub ?s) (range_cfi sel_next)"
    by (simp add: created_once_facts)
  note r = create_highlight_result [OF ok, of "[110, 101, 120, 116]"]
  note f = create_highlight_flag [of "range_cfi sel_next" "[110, 101, 120, 116]" ?s]
  show "clock created_twice = 5200" using f by (simp add: c)
  show "timers created_twice = [(5300, ResetJustCreated), (5500, ResetJustCreated)]"
    using f by (simp add: c created_once_facts)
  show "justCreatedHighlightRef created_twice" using f by (simp add: c)
  show "highlights_st created_twice = [hA, hB, newHighlight (range_cfi sel_word) [72, 105] 5000,
                                  newHighlight (range_cfi sel_next) [110, 101, 120, 116] 5200]"
    using r by (simp add: c created_once_facts)
  show "inflight created_twice =
     [Awaiting_get (Req_addBookHighlight ''b1'' (newHighlight (range_cfi sel_word) [72, 105] 5000)),
      Awaiting_get (Req_addBookHighlight ''b1'' (newHighlight (range_cfi sel_next) [110, 101, 120, 116] 5200))]"
    using r by (simp add: c created_once_facts) (simp add: book1_def)
  show "db created_twice = db1" using r by (simp add: c created_once_facts)
  show "highlightPopup created_twice = None" using f by (simp add: c created_once_facts)
  show "containerRef created_twice = Some 800"
    using ok
    by (simp add: c create_highlight_def overlay_call_defs setter_defs call_addBookHighlight_def Let_def
        created_once_facts)
qed

text \<open>
  C5 as the specification words it fails in three ways. A selection that is not
  collapsed and has the text \<open>Hi\<close>, but for which the engine gives the empty identifier
  (\<open>sel_noid\<close>), creates nothing. One whose overlay the engine refuses to add
  (\<open>sel_hA\<close>, on the engine that no longer resolves that range) creates no highlight
  either. And of two highlights created 200 ms apart, both in the highlights of the
  session, only the second is stored when the two calls of \<open>addBookHighlight\<close> read
  the record before either writes it: each writes back the collection it read with its
  own highlight appended.
\<close>

theorem selection_not_created_counterexample:
  "isCollapsed sel_noid = False \<and> rangeCount sel_noid = 1 \<and> trim (toString sel_noid) = [72, 105]
   \<and> isHighlightModeRef (toggleHighlightMode ready1)
   \<and> mouseup (Some sel_noid) (toggleHighlightMode ready1) = toggleHighlightMode ready1
   \<and> isCollapsed sel_hA = False \<and> rangeCount sel_hA = 1 \<and> trim (toString sel_hA) = [72, 105]
   \<and> range_cfi sel_hA = ''epubcfi(/6/4!/4/2,/1:0,/1:5)''
   \<and> isHighlightModeRef (toggleHighlightMode ready_stale)
   \<and> highlights_st (mouseup (Some sel_hA) (toggleHighlightMode ready_stale)) = [hA, hB]
   \<and> inflight (mouseup (Some sel_hA) (toggleHighlightMode ready_stale)) = []
   \<and> highlights_st created_twice =
        [hA, hB, newHighlight (range_cfi sel_word) [72, 105] 5000,
         newHighlight (range_cfi sel_next) [110, 101, 120, 116] 5200]
   \<and> inflight created_twice =
        [Awaiting_get (Req_addBookHighlight ''b1'' (newHighlight (range_cfi sel_word) [72, 105] 5000)),
         Awaiting_get (Req_addBookHighlight ''b1'' (newHighlight (range_cfi sel_next) [110, 101, 120, 116] 5200))]
   \<and> inflight (db_step 0 (db_step 0 (db_step 1 (db_step 0 created_twice)))) = []
   \<and> stored_highlights ''b1'' (db (db_step 0 (db_step 0 (db_step 1 (db_step 0 created_twice)))))
        = Some [hA, hB, newHighlight (range_cfi sel_next) [110, 101, 120, 116] 5200]"
proof -
  let ?s = "toggleHighlightMode ready1"
  let ?t = "toggleHighlightMode ready_stale"
  let ?h1 = "newHighlight (range_cfi sel_word) [72, 105] 5000"
  let ?h2 = "newHighlight (range_cfi sel_next) [110, 101, 120, 116] 5200"
  have a: "isCollapsed sel_noid = False \<and> rangeCount sel_noid = 1 \<and> trim (toString sel_noid) = [72, 105]"
    by (simp add: sel_noid_def sel_word_def trim_def is_js_space_def)
  have b: "isHighlightModeRef ?s" by (simp add: reading_facts)
  have c: "mouseup (Some sel_noid) ?s = ?s"
    by (rule mouseup_ignored(6)) (simp add: sel_noid_def)
  have d: "isCollapsed sel_hA = False \<and> rangeCount sel_hA = 1 \<and> trim (toString sel_hA) = [72, 105]
           \<and> range_cfi sel_hA = ''epubcfi(/6/4!/4/2,/1:0,/1:5)''"
    by (simp add: sel_hA_def sel_word_def trim_def is_js_space_def hA_def)
  have e: "isHighlightModeRef ?t" by (simp add: toggleHighlightMode_def ready_stale_facts)
  have t: "trim (toString sel_hA) \<noteq> []" "\<not> isCollapsed sel_hA" "0 < rangeCount sel_hA" "range_cfi sel_hA \<noteq> []"
    using d by simp_all
  have m: "mouseup (Some sel_hA) ?t = create_highlight (range_cfi sel_hA) (trim (toString sel_hA)) ?t"
    by (rule mouseup_creates [OF e t(2,3,1,4)])
  have thr: "add_throws (epub ?t) (range_cfi sel_hA)"
    by (simp add: toggleHighlightMode_def ready_stale_facts engine_stale_def sel_hA_def)
  have ht: "highlights_st ?t = [hA, hB]" "inflight ?t = []"
    by (simp_all add: toggleHighlightMode_def ready_stale_facts)
  have f: "highlights_st (mouseup (Some sel_hA) ?t) = [hA, hB]"
    unfolding m create_highlight_thrown(1) [OF thr] by (rule ht(1))
  have g: "inflight (mouseup (Some sel_hA) ?t) = []"
    unfolding m create_highlight_thrown(4) [OF thr] by (rule ht(2))
  have g1: "after_get (Req_addBookHighlight ''b1'' h) db1 =
              Some (Awaiting_put (book1\<lparr>highlights := Some [hA, hB, h]\<rparr>))" for h
    by (simp add: after_get_def db_get_def db1_def book1_def)
  let ?s1 = "created_twice\<lparr>inflight := [Awaiting_put (book1\<lparr>highlights := Some [hA, hB, ?h1]\<rparr>),
                                             Awaiting_get (Req_addBookHighlight ''b1'' ?h2)]\<rparr>"
  let ?s2 = "created_twice\<lparr>inflight := [Awaiting_put (book1\<lparr>highlights := Some [hA, hB, ?h1]\<rparr>),
                                             Awaiting_put (book1\<lparr>highlights := Some [hA, hB, ?h2]\<rparr>)]\<rparr>"
  have s1: "db_step 0 created_twice = ?s1"
    by (simp add: db_step_def created_twice_facts g1)
  have s2: "db_step 1 ?s1 = ?s2"
    by (simp add: db_step_def created_twice_facts g1)
  have bk: "book_id book1 = ''b1''" by (simp add: book1_def)
  let ?d3 = "db1\<lparr>books := (books db1)(''b1'' \<mapsto> book1\<lparr>highlights := Some [hA, hB, ?h1]\<rparr>)\<rparr>"
  let ?s3 = "created_twice\<lparr>db := ?d3, inflight := [Awaiting_put (book1\<lparr>highlights := Some [hA, hB, ?h2]\<rparr>)]\<rparr>"
  have s3: "db_step 0 ?s2 = ?s3"
    by (simp add: db_step_def created_twice_facts db_put_def settle_def without_def db1_def bk)
  have s4i: "inflight (db_step 0 ?s3) = []"
    by (simp add: db_step_def without_def)
  have s4d: "stored_highlights ''b1'' (db (db_step 0 ?s3)) = Some [hA, hB, ?h2]"
    by (simp add: db_step_def db_put_def settle_def without_def db1_def bk stored_highlights_def)
  have i: "inflight (db_step 0 (db_step 0 (db_step 1 (db_step 0 created_twice)))) = []"
    by (simp only: s1 s2 s3 s4i)
  have j: "stored_highlights ''b1'' (db (db_step 0 (db_step 0 (db_step 1 (db_step 0 created_twice)))))
        = Some [hA, hB, ?h2]"
    by (simp only: s1 s2 s3 s4d)
  show ?thesis using a b c d e f g created_twice_facts(4,5) i j by blast
qed





text \<open>
  C8. In highlight mode a highlight is created from \<open>sel_word\<close> at 5000 ms and a second
  one from \<open>sel_next\<close> at 5200 ms. Each creation sets the flag and arms a reset 300 ms
  later, and the second creation does not cancel the reset of the first. At 5350 ms,
  150 ms after the second creation, the first reset has run: the flag is clear, and a
  mark-click on the overlay just created opens the delete popup.
\<close>

theorem second_creation_is_not_protected:
  "clock created_once = 5000
   \<and> timers created_once = [(5300, ResetJustCreated)]
   \<and> clock created_twice = 5200
   \<and> justCreatedHighlightRef created_twice
   \<and> timers created_twice = [(5300, ResetJustCreated), (5500, ResetJustCreated)]
   \<and> highlights_st created_twice =
        [hA, hB, newHighlight (range_cfi sel_word) [72, 105] 5000,
         newHighlight (range_cfi sel_next) [110, 101, 120, 116] 5200]
   \<and> clock (advance 5350 created_twice) = 5350
   \<and> timers (advance 5350 created_twice) = [(5500, ResetJustCreated)]
   \<and> justCreatedHighlightRef (advance 5350 created_twice) = False
   \<and> highlightPopup (advance 5350 created_twice) = None
   \<and> highlightPopup (markClicked (range_cfi sel_next) (advance 5350 created_twice))
        = Some \<lparr>popup_cfiRange = range_cfi sel_next, popup_x = 400, popup_y = 60\<rparr>"
proof -
  have a: "advance 5350 created_twice =
             created_twice\<lparr>clock := 5350, timers := [(5500, ResetJustCreated)],
                            justCreatedHighlightRef := False\<rparr>"
    by (simp add: advance_def Let_def created_twice_facts)
  have p: "highlightPopup (markClicked (range_cfi sel_next) (advance 5350 created_twice))
        = Some \<lparr>popup_cfiRange = range_cfi sel_next, popup_x = 400, popup_y = 60\<rparr>"
    by (simp add: a markClicked_def setter_defs created_twice_facts)
  show ?thesis using p created_once_facts(1,2) created_twice_facts(1,2,3,4)
    by (simp add: a created_twice_facts)
qed

lemma fire_all_flag:
  "\<forall>p\<in>set ps. snd p \<noteq> ResetJustCreated \<Longrightarrow>
     justCreatedHighlightRef (fire_all ps s) = justCreatedHighlightRef s"
proof (induction ps arbitrary: s)
  case Nil
  show ?case by simp
next
  case (Cons p ps)
  from Cons.prems obtain hs where p: "snd p = Reconcile hs" by (cases "snd p") auto
  have "justCreatedHighlightRef (fire (snd p) s) = justCreatedHighlightRef s"
    using only_overlays_fields(8) [OF reconcile_only_overlays, of hs s] p by simp
  then show ?case using Cons.IH [of "fire (snd p) s"] Cons.prems by simp
qed

lemma advance_flag:
  assumes "\<forall>p\<in>set (timers s). snd p = ResetJustCreated \<longrightarrow> t < fst p"
  shows "justCreatedHighlightRef (advance t s) = justCreatedHighlightRef s"
proof -
  have "\<forall>p\<in>set (sort_key fst (filter (\<lambda>p. fst p \<le> t) (timers s))). snd p \<noteq> ResetJustCreated"
    using assms by auto
  then show ?thesis by (simp add: advance_def Let_def fire_all_flag)
qed

lemma markClicked_flag: "justCreatedHighlightRef s \<Longrightarrow> markClicked c s = s"
  by (simp add: markClicked_def)

text \<open>
  What does hold of the flag: while \<open>justCreatedHighlightRef\<close> is set, the markClicked
  handler returns at once: the session, its popup included, is as it was, and no setter
  is called. The mouseup that creates a highlight sets the flag and arms the timer that
  clears it 300 ms later, and leaves the popup alone. So at any time \<open>t\<close> less than
  300 ms after the creation, no reset armed by an earlier creation being due by \<open>t\<close>,
  the flag is still set, a mark-click changes nothing, and the popup is the one from
  before the creation.
\<close>

theorem markClicked_suppressed_while_just_created:
  "(justCreatedHighlightRef s \<longrightarrow> markClicked c s = s)
   \<and> (isHighlightModeRef s \<and> \<not> isCollapsed sl \<and> 0 < rangeCount sl
        \<and> \<not> (\<forall>u\<in>set (toString sl). is_js_space u) \<and> range_cfi sl \<noteq> [] \<longrightarrow>
       justCreatedHighlightRef (mouseup (Some sl) s)
       \<and> timers (mouseup (Some sl) s) = timers s @ [(clock s + 300, ResetJustCreated)]
       \<and> highlightPopup (mouseup (Some sl) s) = highlightPopup s
       \<and> (t < clock s + 300 \<and> (\<forall>p\<in>set (timers s). snd p = ResetJustCreated \<longrightarrow> t < fst p) \<longrightarrow>
            justCreatedHighlightRef (advance t (mouseup (Some sl) s))
            \<and> markClicked c (advance t (mouseup (Some sl) s)) = advance t (mouseup (Some sl) s)
            \<and> highlightPopup (markClicked c (advance t (mouseup (Some sl) s))) = highlightPopup s))"
proof -
  have 1: "justCreatedHighlightRef s \<longrightarrow> markClicked c s = s"
    by (simp add: markClicked_flag)
  have 2: "justCreatedHighlightRef (mouseup (Some sl) s)
       \<and> timers (mouseup (Some sl) s) = timers s @ [(clock s + 300, ResetJustCreated)]
       \<and> highlightPopup (mouseup (Some sl) s) = highlightPopup s
       \<and> (t < clock s + 300 \<and> (\<forall>p\<in>set (timers s). snd p = ResetJustCreated \<longrightarrow> t < fst p) \<longrightarrow>
            justCreatedHighlightRef (advance t (mouseup (Some sl) s))
            \<and> markClicked c (advance t (mouseup (Some sl) s)) = advance t (mouseup (Some sl) s)
            \<and> highlightPopup (markClicked c (advance t (mouseup (Some sl) s))) = highlightPopup s)"
    if h: "isHighlightModeRef s" "\<not> isCollapsed sl" "0 < rangeCount sl"
        "\<not> (\<forall>u\<in>set (toString sl). is_js_space u)" "range_cfi sl \<noteq> []"
  proof -
    let ?s' = "mouseup (Some sl) s"
    have t: "trim (toString sl) \<noteq> []" using h(4) by (simp add: trim_empty_iff)
    have m: "?s' = create_highlight (range_cfi sl) (trim (toString sl)) s"
      by (rule mouseup_creates [OF h(1,2,3) t h(5)])
    have a: "justCreatedHighlightRef ?s'" by (simp add: m create_highlight_flag)
    have b: "timers ?s' = timers s @ [(clock s + 300, ResetJustCreated)]"
      by (simp add: m create_highlight_flag)
    have p: "highlightPopup ?s' = highlightPopup s" by (simp add: m create_highlight_flag)
    have w: "justCreatedHighlightRef (advance t ?s')
            \<and> markClicked c (advance t ?s') = advance t ?s'
            \<and> highlightPopup (markClicked c (advance t ?s')) = highlightPopup s"
      if "t < clock s + 300" and "\<forall>p\<in>set (timers s). snd p = ResetJustCreated \<longrightarrow> t < fst p"
    proof -
      have "\<forall>p\<in>set (timers ?s'). snd p = ResetJustCreated \<longrightarrow> t < fst p"
        using that by (auto simp: b)
      then have f: "justCreatedHighlightRef (advance t ?s')"
        using advance_flag [of ?s' t] a by simp
      then have e: "markClicked c (advance t ?s') = advance t ?s'" by (rule markClicked_flag)
      have "highlightPopup (advance t ?s') = highlightPopup s"
        using advance_keeps [of t ?s'] p by simp
      then show ?thesis using f e by simp
    qed
    show ?thesis using a b p w by blast
  qed
  show ?thesis using 1 2 by blast
qed

theorem markClicked_suppressed_while_just_created_witness:
  "timers (mouseup (Some sel_word) (toggleHighlightMode ready1)) = [(5300, ResetJustCreated)]
   \<and> justCreatedHighlightRef (advance 5299 (mouseup (Some sel_word) (toggleHighlightMode ready1)))
   \<and> markClicked (range_cfi sel_word) (advance 5299 (mouseup (Some sel_word) (toggleHighlightMode ready1)))
       = advance 5299 (mouseup (Some sel_word) (toggleHighlightMode ready1))
   \<and> highlightPopup (markClicked (range_cfi sel_word)
        (advance 5299 (mouseup (Some sel_word) (toggleHighlightMode ready1)))) = None"
proof -
  let ?s = "toggleHighlightMode ready1"
  note w = markClicked_suppressed_while_just_created [of ?s "range_cfi sel_word" sel_word 5299]
  have pre: "isHighlightModeRef ?s \<and> \<not> isCollapsed sel_word \<and> 0 < rangeCount sel_word
        \<and> \<not> (\<forall>u\<in>set (toString sel_word). is_js_space u) \<and> range_cfi sel_word \<noteq> []"
    by (simp add: reading_facts) (simp add: sel_word_def is_js_space_def)
  have tm: "5299 < clock ?s + 300 \<and> (\<forall>p\<in>set (timers ?s). snd p = ResetJustCreated \<longrightarrow> 5299 < fst p)"
    by (simp add: reading_facts)
  have 1: "timers (mouseup (Some sel_word) ?s) = timers ?s @ [(clock ?s + 300, ResetJustCreated)]"
    using w pre by blast
  have 2: "justCreatedHighlightRef (advance 5299 (mouseup (Some sel_word) ?s))"
    using w pre tm by blast
  have 3: "markClicked (range_cfi sel_word) (advance 5299 (mouseup (Some sel_word) ?s))
       = advance 5299 (mouseup (Some sel_word) ?s)"
    using w pre tm by blast
  have 4: "highlightPopup (markClicked (range_cfi sel_word)
        (advance 5299 (mouseup (Some sel_word) ?s))) = highlightPopup ?s"
    using w pre tm by blast
  show ?thesis using 1 2 3 4 by (simp add: reading_facts)
qed

text \<open>
  Outside the window: with the flag clear and the container mounted, a mark-click opens
  the popup for the clicked identifier, at half the width of the container and 60 down.
\<close>

theorem markClicked_opens_popup:
  assumes "\<not> justCreatedHighlightRef s" and "containerRef s = Some w"
  shows "highlightPopup (markClicked c s) = Some \<lparr>popup_cfiRange = c, popup_x = w / 2, popup_y = 60\<rparr>"
  using assms by (simp add: markClicked_def setter_defs)

text \<open>Once the 300 ms have passed, the mark-click of the witness above opens the popup.\<close>

theorem markClicked_opens_popup_witness:
  "highlightPopup (markClicked (range_cfi sel_word)
      (advance 5300 (mouseup (Some sel_word) (toggleHighlightMode ready1))))
     = Some \<lparr>popup_cfiRange = range_cfi sel_word, popup_x = 400, popup_y = 60\<rparr>"
proof -
  let ?s = "advance 5300 (mouseup (Some sel_word) (toggleHighlightMode ready1))"
  have a: "\<not> justCreatedHighlightRef ?s"
    by (simp add: mouseup_creates create_highlight_def overlay_call_defs setter_defs
        call_addBookHighlight_def Let_def advance_def reading_facts engine1_def mouseup_def
        sel_word_def trim_def is_js_space_def)
  have b: "containerRef ?s = Some 800"
    by (simp add: mouseup_creates create_highlight_def overlay_call_defs setter_defs
        call_addBookHighlight_def Let_def advance_def reading_facts engine1_def mouseup_def
        sel_word_def trim_def is_js_space_def)
  show ?thesis using markClicked_opens_popup [OF a b, of "range_cfi sel_word"] by simp
qed

end
